theory Spec2Isabelle
  imports Main "HOL-Library.AList"
begin

section \<open>Python values used by \<^verbatim>\<open>main.py\<close>\<close>

text \<open>
  A Python \<^verbatim>\<open>str\<close> is modelled as a \<^typ>\<open>string\<close>: its characters are the code points
  below 256. On these, \<^verbatim>\<open>str.strip()\<close> removes the code points 9-13, 28-32, 133 and 160,
  and \<^verbatim>\<open>re.IGNORECASE\<close> identifies exactly an ASCII letter with its other case.
\<close>

definition newline :: char where
  "newline = CHR ''\<newline>''"

definition isspace :: "char \<Rightarrow> bool" where
  "isspace c =
     (let n = (of_char c :: nat)
      in (9 \<le> n \<and> n \<le> 13) \<or> (28 \<le> n \<and> n \<le> 32) \<or> n = 133 \<or> n = 160)"

text \<open>\<^verbatim>\<open>s.strip()\<close>\<close>

definition strip :: "string \<Rightarrow> string" where
  "strip s = rev (dropWhile isspace (rev (dropWhile isspace s)))"

text \<open>\<^verbatim>\<open>s.split(sep)\<close> for a one-character separator: never the empty list.\<close>

fun split :: "char \<Rightarrow> string \<Rightarrow> string list" where
  "split sep [] = [[]]"
| "split sep (c # cs) =
     (if c = sep then [] # split sep cs
      else (case split sep cs of
              [] \<Rightarrow> [[c]]
            | w # ws \<Rightarrow> (c # w) # ws))"

text \<open>
  \<^verbatim>\<open>TaskDetails\<close> is a \<^verbatim>\<open>dict\<close> from \<^verbatim>\<open>str\<close> to \<^verbatim>\<open>str\<close>: an association list in insertion
  order with distinct keys. \<^verbatim>\<open>d[k] = v\<close> is \<^const>\<open>AList.update\<close>, \<^verbatim>\<open>k in d\<close> is
  \<open>map_of d k \<noteq> None\<close>, and \<^verbatim>\<open>not d\<close> is \<open>d = []\<close>.
\<close>

type_synonym task_details = "(string \<times> string) list"

text \<open>\<^verbatim>\<open>d.get(k, default)\<close>\<close>

definition dict_get :: "task_details \<Rightarrow> string \<Rightarrow> string \<Rightarrow> string" where
  "dict_get d k dflt = (case map_of d k of None \<Rightarrow> dflt | Some v \<Rightarrow> v)"

text \<open>Exceptions, each with the text \<^verbatim>\<open>str(e)\<close> gives.\<close>

datatype exn =
    ValueError string
  | OverflowError string
  | EOFError string
  | KeyError string
  | RaisedBy string string

fun str_exn :: "exn \<Rightarrow> string" where
  "str_exn (ValueError m) = m"
| "str_exn (OverflowError m) = m"
| "str_exn (EOFError m) = m"
| "str_exn (KeyError m) = m"
| "str_exn (RaisedBy lib m) = m"

text \<open>
  A \<^verbatim>\<open>datetime\<close>: the reading of the local wall clock, in microseconds since
  0001-01-01T00:00:00, and the attached \<^verbatim>\<open>tzinfo\<close> (or \<^verbatim>\<open>None\<close>). Every value of the class
  lies between \<^verbatim>\<open>datetime.min\<close> and \<^verbatim>\<open>datetime.max\<close> (9999-12-31T23:59:59.999999).
\<close>

datatype tzinfo = TzInfo (tz_str: string) (utcoffset: int)

record datetime =
  wall :: int
  tzinfo :: "tzinfo option"

type_synonym timedelta = int

definition timedelta_hours :: "int \<Rightarrow> timedelta" where
  "timedelta_hours h = h * 3600000000"

definition datetime_max :: int where
  "datetime_max = 3652059 * 86400000000 - 1"

text \<open>
  \<^verbatim>\<open>dt + td\<close>: the wall clock moves by \<^verbatim>\<open>td\<close>, the \<^verbatim>\<open>tzinfo\<close> is kept, and a result outside
  the years 1 to 9999 raises \<^verbatim>\<open>OverflowError\<close>.
\<close>

definition datetime_add :: "datetime \<Rightarrow> timedelta \<Rightarrow> exn + datetime" where
  "datetime_add dt td =
     (if 0 \<le> wall dt + td \<and> wall dt + td \<le> datetime_max
      then Inr (dt\<lparr>wall := wall dt + td\<rparr>)
      else Inl (OverflowError ''date value out of range''))"

text \<open>\<^verbatim>\<open>a - b\<close> for two datetimes with the same \<^verbatim>\<open>tzinfo\<close> object: the difference of the wall clocks.\<close>

definition datetime_sub :: "datetime \<Rightarrow> datetime \<Rightarrow> timedelta" where
  "datetime_sub a b = wall a - wall b"

section \<open>The calendar event\<close>

record event_time =
  dateTime :: string
  timeZone :: string

record attendee =
  email :: string

text \<open>The key \<^verbatim>\<open>'method'\<close> of an override is \<open>method'\<close> here.\<close>

record reminder_override =
  method' :: string
  minutes :: int

record reminders =
  useDefault :: bool
  overrides :: "reminder_override list"

text \<open>The \<^verbatim>\<open>event\<close> dictionary; its key \<^verbatim>\<open>'recurrence'\<close> is optional, its key \<^verbatim>\<open>'end'\<close> is \<open>end'\<close> here.\<close>

record event =
  summary :: string
  description :: string
  start :: event_time
  end' :: event_time
  location :: string
  attendees :: "attendee list"
  reminders :: reminders
  recurrence :: "string list option"

section \<open>The outside world\<close>

text \<open>The items \<^verbatim>\<open>events().list(...).execute()\<close> returns: \<^verbatim>\<open>'start'\<close> (a dictionary) and \<^verbatim>\<open>'summary'\<close>.\<close>

record listed =
  listed_start :: "task_details option"
  listed_summary :: "string option"

text \<open>The transcript object of the transcription client; its attribute \<^verbatim>\<open>text\<close> is \<open>text'\<close> here.\<close>

record transcript =
  status_is_error :: bool
  transcript_error :: string
  text' :: string

text \<open>
  The libraries and services the program calls, taken as parameters:
  \<^verbatim>\<open>dateparser.parse\<close> (a datetime, \<^verbatim>\<open>None\<close>, or an exception), \<^verbatim>\<open>datetime.isoformat\<close>,
  the transcription client, the OAuth flow, the calendar's \<^verbatim>\<open>insert\<close> (the created event's
  \<^verbatim>\<open>htmlLink\<close>, if it has one) and \<^verbatim>\<open>list\<close>, and the clock's \<^verbatim>\<open>now().isoformat()\<close>.
\<close>

record env =
  dateparser_parse :: "string \<Rightarrow> exn + datetime option"
  isoformat :: "datetime \<Rightarrow> string"
  transcribe :: "string \<Rightarrow> exn + transcript"
  authenticate :: "exn option"
  events_insert :: "event \<Rightarrow> exn + string option"
  events_list :: "string \<Rightarrow> nat \<Rightarrow> exn + listed list"
  now_isoformat :: string

text \<open>What a run does, in order: the trace of its effects.\<close>

datatype action =
    Print string
  | PrintJson task_details
  | Input string
  | Transcribe string
  | Authenticate
  | EventsInsert event
  | EventsList string nat

section \<open>\<^verbatim>\<open>parse_time\<close>\<close>

text \<open>The handler prints and raises again: the result is the printed text and the outcome.\<close>

definition parse_time :: "env \<Rightarrow> string \<Rightarrow> action list \<times> (exn + datetime)" where
  "parse_time E time_str =
     (case (case dateparser_parse E time_str of
              Inl e \<Rightarrow> Inl e
            | Inr None \<Rightarrow> Inl (ValueError ''Unable to parse the provided date and time.'')
            | Inr (Some dt) \<Rightarrow> Inr dt) of
        Inl e \<Rightarrow> ([Print (''Time parsing error: '' @ str_exn e)], Inl e)
      | Inr dt \<Rightarrow> ([], Inr dt))"

section \<open>\<^verbatim>\<open>create_calendar_event\<close>\<close>

text \<open>\<^verbatim>\<open>str(dt.tzinfo) if dt.tzinfo else 'UTC'\<close>\<close>

definition timezone_label :: "datetime \<Rightarrow> string" where
  "timezone_label dt = (case tzinfo dt of None \<Rightarrow> ''UTC'' | Some tz \<Rightarrow> tz_str tz)"

text \<open>The dictionary literal of lines 191 to 211.\<close>

definition initial_event :: "env \<Rightarrow> task_details \<Rightarrow> string \<Rightarrow> datetime \<Rightarrow> datetime \<Rightarrow> event" where
  "initial_event E task_details title start_time end_time =
     \<lparr> summary = title,
       description = dict_get task_details ''description'' '''',
       start = \<lparr> dateTime = isoformat E start_time, timeZone = timezone_label start_time \<rparr>,
       end' = \<lparr> dateTime = isoformat E end_time, timeZone = timezone_label end_time \<rparr>,
       location = dict_get task_details ''location'' '''',
       attendees = [],
       reminders = \<lparr> useDefault = False,
                     overrides = [\<lparr> method' = ''email'', minutes = 24 * 60 \<rparr>,
                                  \<lparr> method' = ''popup'', minutes = 30 \<rparr>] \<rparr>,
       recurrence = None \<rparr>"

text \<open>Lines 213 to 220.\<close>

definition add_participants :: "task_details \<Rightarrow> event \<Rightarrow> event" where
  "add_participants task_details ev =
     (let participants = dict_get task_details ''participants'' ''''
      in if participants \<noteq> [] then
           (let new_attendees =
                  map (\<lambda>email. \<lparr> email = strip email \<rparr>)
                    (filter (\<lambda>email. CHR ''@'' \<in> set email) (split CHR '','' participants))
            in if new_attendees \<noteq> [] then ev\<lparr>attendees := new_attendees\<rparr> else ev)
         else ev)"

text \<open>Lines 222 to 225.\<close>

definition add_attachments :: "task_details \<Rightarrow> event \<Rightarrow> event" where
  "add_attachments task_details ev =
     (let attachments = dict_get task_details ''attachments'' ''''
      in if attachments \<noteq> []
         then ev\<lparr>description := description ev @ newline # ''Attachments/Links: '' @ attachments\<rparr>
         else ev)"

text \<open>Lines 227 to 230.\<close>

definition add_notes :: "task_details \<Rightarrow> event \<Rightarrow> event" where
  "add_notes task_details ev =
     (let notes = dict_get task_details ''notes'' ''''
      in if notes \<noteq> []
         then ev\<lparr>description := description ev @ newline # ''Notes: '' @ notes\<rparr>
         else ev)"

text \<open>Lines 232 to 239.\<close>

definition add_recurrence :: "task_details \<Rightarrow> event \<Rightarrow> event" where
  "add_recurrence task_details ev =
     (let recurrence_text = dict_get task_details ''recurrence'' ''''
      in if recurrence_text \<noteq> []
         then ev\<lparr>recurrence := Some [''RRULE:FREQ=WEEKLY;COUNT=10'']\<rparr>
         else ev)"

text \<open>Lines 241 to 244.\<close>

definition add_rsvp :: "task_details \<Rightarrow> event \<Rightarrow> event" where
  "add_rsvp task_details ev =
     (let rsvp = dict_get task_details ''rsvp'' ''''
      in if rsvp \<noteq> []
         then ev\<lparr>description := description ev @ newline # ''RSVP: '' @ rsvp\<rparr>
         else ev)"

text \<open>\<^verbatim>\<open>print(f"\nEvent created successfully: {created_event.get('htmlLink')}")\<close>\<close>

definition str_of_link :: "string option \<Rightarrow> string" where
  "str_of_link l = (case l of None \<Rightarrow> ''None'' | Some s \<Rightarrow> s)"

definition error_adding :: "exn \<Rightarrow> action" where
  "error_adding e = Print (''Error adding event to calendar: '' @ str_exn e)"

text \<open>The event as it stands at line 247, after the updates of lines 213 to 244.\<close>

definition build_event :: "env \<Rightarrow> task_details \<Rightarrow> string \<Rightarrow> datetime \<Rightarrow> datetime \<Rightarrow> event" where
  "build_event E task_details title start_time end_time =
     (let ev = initial_event E task_details title start_time end_time;
          ev = add_participants task_details ev;
          ev = add_attachments task_details ev;
          ev = add_notes task_details ev;
          ev = add_recurrence task_details ev;
          ev = add_rsvp task_details ev
      in ev)"

text \<open>
  The function returns \<^verbatim>\<open>None\<close> on every path and lets no \<^verbatim>\<open>Exception\<close> out: its result
  here is the trace of what it printed and sent to the calendar.
\<close>

definition create_calendar_event :: "env \<Rightarrow> task_details \<Rightarrow> action list" where
  "create_calendar_event E task_details =
     (let title = dict_get task_details ''task'' ''No Title Provided'';
          date_time_str = map_of task_details ''date_time''
      in if date_time_str = None \<or> date_time_str = Some []
         then [Print ''Event date and time not provided.'']
         else
           (case parse_time E (the date_time_str) of
              (out, Inl e) \<Rightarrow> out @ [error_adding e]
            | (out, Inr start_time) \<Rightarrow>
                (case datetime_add start_time (timedelta_hours 1) of
                   Inl e \<Rightarrow> out @ [error_adding e]
                 | Inr end_time \<Rightarrow>
                     (let ev = build_event E task_details title start_time end_time
                      in out @ EventsInsert ev #
                           (case events_insert E ev of
                              Inl e \<Rightarrow> [error_adding e]
                            | Inr link \<Rightarrow>
                                [Print (''\<newline>Event created successfully: ''
                                          @ str_of_link link)])))))"

section \<open>\<^verbatim>\<open>transcribe_audio\<close>\<close>

definition transcribe_audio :: "env \<Rightarrow> string \<Rightarrow> action list \<times> transcript option" where
  "transcribe_audio E audio_file_path =
     (case transcribe E audio_file_path of
        Inl e \<Rightarrow>
          ([Print ''Transcribing audio...'', Transcribe audio_file_path,
            Print (''Transcription error: '' @ str_exn e)], None)
      | Inr t \<Rightarrow>
          if status_is_error t
          then ([Print ''Transcribing audio...'', Transcribe audio_file_path,
                 Print (''Transcription failed: '' @ transcript_error t)], None)
          else ([Print ''Transcribing audio...'', Transcribe audio_file_path], Some t))"

section \<open>The pattern of \<^verbatim>\<open>extract_task_details\<close>\<close>

text \<open>
  \<^verbatim>\<open>re.search(r"(?:schedule|book|arrange) a meeting with (.+?) at (.+?)(?:\.|$)", text,
  re.IGNORECASE)\<close>, as the backtracking matcher runs it: start positions from left to right,
  the alternatives in order, each lazy group grown one character at a time; \<^verbatim>\<open>.\<close> is any
  character but the newline, and \<^verbatim>\<open>$\<close> holds at the end of the text and before a newline
  that ends it.
\<close>

definition tolower :: "char \<Rightarrow> char" where
  "tolower c =
     (let n = (of_char c :: nat)
      in if (65 \<le> n \<and> n \<le> 90) \<or> (192 \<le> n \<and> n \<le> 222 \<and> n \<noteq> 215)
         then char_of (n + 32) else c)"

text \<open>The literal pieces of the pattern, in lower case.\<close>

definition pattern_verbs :: "string list" where
  "pattern_verbs = [''schedule'', ''book'', ''arrange'']"

definition pattern_meeting :: string where
  "pattern_meeting = '' a meeting with ''"

definition pattern_at :: string where
  "pattern_at = '' at ''"

text \<open>A literal of the pattern at the head of the text, letters in either case: what follows it.\<close>

fun literal_ignorecase :: "string \<Rightarrow> string \<Rightarrow> string option" where
  "literal_ignorecase [] s = Some s"
| "literal_ignorecase (p # ps) [] = None"
| "literal_ignorecase (p # ps) (c # cs) =
     (if tolower c = p then literal_ignorecase ps cs else None)"

text \<open>
  The second group has at least one character already; \<^verbatim>\<open>(?:\.|$)\<close> is tried, and when it
  fails the group takes one more character.
\<close>

fun time_more :: "string \<Rightarrow> string option" where
  "time_more [] = Some []"
| "time_more (c # cs) =
     (if c = CHR ''.'' \<or> (c = newline \<and> cs = []) then Some []
      else if c = newline then None
      else map_option ((#) c) (time_more cs))"

text \<open>\<^verbatim>\<open>(.+?)(?:\.|$)\<close>\<close>

definition time_group :: "string \<Rightarrow> string option" where
  "time_group s =
     (case s of
        [] \<Rightarrow> None
      | c # cs \<Rightarrow> if c = newline then None else map_option ((#) c) (time_more cs))"

text \<open>\<^verbatim>\<open> at (.+?)(?:\.|$)\<close>\<close>

definition at_time :: "string \<Rightarrow> string option" where
  "at_time s =
     (case literal_ignorecase pattern_at s of
        None \<Rightarrow> None
      | Some r \<Rightarrow> time_group r)"

text \<open>
  The first group has at least one character already; the rest of the pattern is tried, and
  when it fails the group takes one more character.
\<close>

fun whom_more :: "string \<Rightarrow> (string \<times> string) option" where
  "whom_more [] = (case at_time [] of Some t \<Rightarrow> Some ([], t) | None \<Rightarrow> None)"
| "whom_more (c # cs) =
     (case at_time (c # cs) of
        Some t \<Rightarrow> Some ([], t)
      | None \<Rightarrow>
          if c = newline then None
          else map_option (\<lambda>(w, t). (c # w, t)) (whom_more cs))"

text \<open>\<^verbatim>\<open>(.+?) at (.+?)(?:\.|$)\<close>\<close>

definition whom_group :: "string \<Rightarrow> (string \<times> string) option" where
  "whom_group s =
     (case s of
        [] \<Rightarrow> None
      | c # cs \<Rightarrow>
          if c = newline then None
          else map_option (\<lambda>(w, t). (c # w, t)) (whom_more cs))"

text \<open>One alternative of \<^verbatim>\<open>(?:schedule|book|arrange)\<close>, then the rest of the pattern.\<close>

definition match_verb :: "string \<Rightarrow> string \<Rightarrow> (string \<times> string) option" where
  "match_verb verb s =
     (case literal_ignorecase verb s of
        None \<Rightarrow> None
      | Some r \<Rightarrow>
          (case literal_ignorecase pattern_meeting r of
             None \<Rightarrow> None
           | Some r' \<Rightarrow> whom_group r'))"

fun match_alternatives :: "string list \<Rightarrow> string \<Rightarrow> (string \<times> string) option" where
  "match_alternatives [] s = None"
| "match_alternatives (verb # verbs) s =
     (case match_verb verb s of
        Some g \<Rightarrow> Some g
      | None \<Rightarrow> match_alternatives verbs s)"

definition match_here :: "string \<Rightarrow> (string \<times> string) option" where
  "match_here s = match_alternatives pattern_verbs s"

text \<open>The search: \<^verbatim>\<open>group(1)\<close> and \<^verbatim>\<open>group(2)\<close> of the first match, or \<^verbatim>\<open>None\<close>.\<close>

fun re_search :: "string \<Rightarrow> (string \<times> string) option" where
  "re_search [] = match_here []"
| "re_search (c # cs) =
     (case match_here (c # cs) of
        Some g \<Rightarrow> Some g
      | None \<Rightarrow> re_search cs)"

section \<open>\<^verbatim>\<open>extract_task_details\<close>\<close>

definition extract_task_details :: "env \<Rightarrow> string \<Rightarrow> action list \<times> task_details" where
  "extract_task_details E transcript_text =
     (case re_search transcript_text of
        Some (g1, g2) \<Rightarrow>
          (let with_whom = strip g1;
               time_str = strip g2
           in (case dateparser_parse E time_str of
                 Inl e \<Rightarrow>
                   ([Print (''Transcript Text: '' @ transcript_text),
                     Print (''Error extracting task details: '' @ str_exn e)], [])
               | Inr None \<Rightarrow>
                   ([Print (''Transcript Text: '' @ transcript_text),
                     Print ''Failed to parse time.''], [])
               | Inr (Some time_parsed) \<Rightarrow>
                   ([Print (''Transcript Text: '' @ transcript_text)],
                    [(''task'', ''Meeting with '' @ with_whom),
                     (''with_whom'', with_whom),
                     (''date_time'', isoformat E time_parsed)])))
      | None \<Rightarrow>
          ([Print (''Transcript Text: '' @ transcript_text),
            Print ''Failed to extract task details using regex.''], []))"

section \<open>\<^verbatim>\<open>ask_follow_up_questions\<close>\<close>

text \<open>
  The table \<^verbatim>\<open>required_fields\<close>, in its order: field, question, mandatory. The apostrophe
  of question 4 is U+2019 in the source, written here as its three UTF-8 bytes.
\<close>

definition required_fields :: "(string \<times> string \<times> bool) list" where
  "required_fields =
     [(''task'',
       ''1. **Event Title**\<newline>Please provide a clear and concise title for the event (e.g., 'Team Meeting', 'Client Call').'',
       True),
      (''date_time'',
       ''2. **Date & Time**\<newline>Please specify the date and time for the event (e.g., 'December 7, 2024, 3:00 PM EST').'',
       True),
      (''location'',
       ''3. **Location**\<newline>Please provide the location of the event. If it's virtual, include the meeting link and access details.'',
       False),
      (''description'',
       ''4. **Description**\<newline>Provide a brief description of the event'' @ [CHR 0xE2, CHR 0x80, CHR 0x99]
         @ ''s purpose, agenda, or goals.'',
       False),
      (''participants'',
       ''5. **Participants/Attendees**\<newline>List who is invited to the event, including names and roles.'',
       False),
      (''attachments'',
       ''6. **Attachments/Links**\<newline>Include any necessary files or links to relevant resources (e.g., project files, articles).'',
       False),
      (''recurrence'',
       ''7. **Recurrence**\<newline>Will this event repeat? If yes, specify the pattern (daily, weekly, monthly, etc.) and any exceptions.'',
       False),
      (''notes'',
       ''8. **Notes/Additional Information**\<newline>Any additional details, such as parking information, special instructions, or pre-event preparation.'',
       False),
      (''rsvp'',
       ''9. **Action Items/RSVP Requests**\<newline>Does the event require attendees to RSVP or complete specific tasks beforehand? If yes, provide instructions.'',
       False)]"

text \<open>
  Standard input is the list of the lines still to be read; \<^verbatim>\<open>input(prompt)\<close> writes the
  prompt and takes the first line, or raises \<^verbatim>\<open>EOFError\<close> when none is left.
\<close>

definition eof :: exn where
  "eof = EOFError ''EOF when reading a line''"

text \<open>
  The \<^verbatim>\<open>while\<close> loop of lines 153 to 157, entered with an empty response on a mandatory
  field: it asks until a line is not blank and returns that response, stripped.
\<close>

fun ask_again :: "string \<Rightarrow> string list \<Rightarrow> action list \<times> (exn + string \<times> string list)" where
  "ask_again question [] =
     ([Input (''This field is mandatory. '' @ question @ ''\<newline>Your Answer: '')], Inl eof)"
| "ask_again question (line # rest) =
     (let response = strip line
      in if response \<noteq> []
         then ([Input (''This field is mandatory. '' @ question @ ''\<newline>Your Answer: '')],
               Inr (response, rest))
         else (case ask_again question rest of
                 (out, r) \<Rightarrow>
                   (Input (''This field is mandatory. '' @ question @ ''\<newline>Your Answer: '') # out, r)))"

text \<open>The \<^verbatim>\<open>for\<close> loop over the table.\<close>

fun ask_fields ::
  "(string \<times> string \<times> bool) list \<Rightarrow> task_details \<Rightarrow> string list \<Rightarrow>
     action list \<times> (exn + task_details \<times> string list)" where
  "ask_fields [] task_details stdin = ([], Inr (task_details, stdin))"
| "ask_fields ((field, question, mandatory) # later) task_details stdin =
     (if map_of task_details field \<noteq> None \<and> map_of task_details field \<noteq> Some []
      then ask_fields later task_details stdin
      else
        (case stdin of
           [] \<Rightarrow> ([Input (question @ ''\<newline>Your Answer: '')], Inl eof)
         | line # rest \<Rightarrow>
             (let response = strip line
              in if response \<noteq> [] then
                   (case ask_fields later (AList.update field response task_details) rest of
                      (out, r) \<Rightarrow> (Input (question @ ''\<newline>Your Answer: '') # out, r))
                 else if mandatory then
                   (case ask_again question rest of
                      (asked, Inl e) \<Rightarrow>
                        (Input (question @ ''\<newline>Your Answer: '') # asked, Inl e)
                    | (asked, Inr (response', rest')) \<Rightarrow>
                        (case ask_fields later (AList.update field response' task_details) rest' of
                           (out, r) \<Rightarrow>
                             (Input (question @ ''\<newline>Your Answer: '') # asked @ out, r)))
                 else
                   (case ask_fields later task_details rest of
                      (out, r) \<Rightarrow> (Input (question @ ''\<newline>Your Answer: '') # out, r)))))"

definition ask_follow_up_questions ::
  "task_details \<Rightarrow> string list \<Rightarrow> action list \<times> (exn + task_details \<times> string list)" where
  "ask_follow_up_questions task_details stdin =
     (case ask_fields required_fields task_details stdin of
        (out, r) \<Rightarrow>
          (Print ''\<newline>To create a detailed calendar event, please provide additional information where needed.\<newline>''
             # out, r))"

section \<open>\<^verbatim>\<open>display_upcoming_events\<close>\<close>

definition str_of_option :: "string option \<Rightarrow> string" where
  "str_of_option v = (case v of None \<Rightarrow> ''None'' | Some s \<Rightarrow> s)"

text \<open>The loop over the listed events; \<^verbatim>\<open>event['start']\<close> raises \<^verbatim>\<open>KeyError\<close> when the key is missing.\<close>

fun print_events :: "listed list \<Rightarrow> action list \<times> exn option" where
  "print_events [] = ([], None)"
| "print_events (item # items) =
     (case listed_start item of
        None \<Rightarrow> ([], Some (KeyError (CHR 0x27 # ''start'' @ [CHR 0x27])))
      | Some st \<Rightarrow>
          (let start_text =
                 (case map_of st ''dateTime'' of
                    Some v \<Rightarrow> Some v
                  | None \<Rightarrow> map_of st ''date'');
               summary_text = (case listed_summary item of None \<Rightarrow> ''No Title'' | Some v \<Rightarrow> v);
               line = Print (''- '' @ summary_text @ '' at '' @ str_of_option start_text)
           in (case print_events items of (out, r) \<Rightarrow> (line # out, r))))"

definition display_upcoming_events :: "env \<Rightarrow> nat \<Rightarrow> action list" where
  "display_upcoming_events E max_results =
     Print ''\<newline>Your Upcoming Events:'' #
     EventsList (now_isoformat E) max_results #
     (case events_list E (now_isoformat E) max_results of
        Inl e \<Rightarrow> [Print (''Error fetching upcoming events: '' @ str_exn e)]
      | Inr events \<Rightarrow>
          if events = [] then [Print ''No upcoming events found.'']
          else (case print_events events of
                  (out, None) \<Rightarrow> out
                | (out, Some e) \<Rightarrow> out @ [Print (''Error fetching upcoming events: '' @ str_exn e)]))"

section \<open>\<^verbatim>\<open>main\<close>\<close>

text \<open>
  \<^verbatim>\<open>authenticate_google_calendar\<close> is the OAuth flow and the token file: it returns the
  service or raises. The result of a run is its trace and the exception that ended it, if one
  did: \<^verbatim>\<open>main\<close> itself catches none.
\<close>

definition main :: "env \<Rightarrow> string \<Rightarrow> string list \<Rightarrow> action list \<times> exn option" where
  "main E audio_file_path stdin =
     (case transcribe_audio E audio_file_path of
        (out1, None) \<Rightarrow> (out1 @ [Print ''Failed to transcribe audio.''], None)
      | (out1, Some transcript_obj) \<Rightarrow>
          (let transcript_text = text' transcript_obj;
               out2 = out1 @ [Print (''\<newline>Transcript:\<newline>'' @ transcript_text)]
           in (case extract_task_details E transcript_text of
                 (out3, task_details) \<Rightarrow>
                   if task_details = []
                   then (out2 @ out3 @ [Print ''Failed to extract task details.''], None)
                   else
                     (let out4 = out2 @ out3 @
                            [Print ''\<newline>Extracted Task Details:'', PrintJson task_details]
                      in (case ask_follow_up_questions task_details stdin of
                            (out5, Inl e) \<Rightarrow> (out4 @ out5, Some e)
                          | (out5, Inr (task_details', stdin')) \<Rightarrow>
                              (let out6 = out4 @ out5 @
                                     [Print ''\<newline>Final Task Details:'', PrintJson task_details',
                                      Authenticate]
                               in (case authenticate E of
                                     Some e \<Rightarrow> (out6, Some e)
                                   | None \<Rightarrow>
                                       (out6 @ create_calendar_event E task_details'
                                          @ display_upcoming_events E 10, None))))))))"

section \<open>Observations on a trace\<close>

text \<open>The events sent to the calendar, the prompts shown, and the calendar listings, in order.\<close>

fun inserted_events :: "action list \<Rightarrow> event list" where
  "inserted_events [] = []"
| "inserted_events (EventsInsert ev # rest) = ev # inserted_events rest"
| "inserted_events (a # rest) = inserted_events rest"

fun prompts :: "action list \<Rightarrow> string list" where
  "prompts [] = []"
| "prompts (Input q # rest) = q # prompts rest"
| "prompts (a # rest) = prompts rest"

fun listings :: "action list \<Rightarrow> (string \<times> nat) list" where
  "listings [] = []"
| "listings (EventsList t n # rest) = (t, n) # listings rest"
| "listings (a # rest) = listings rest"

section \<open>The vocabulary of the specification\<close>

text \<open>A field is set when it is present with a value that is not empty.\<close>

definition is_set :: "task_details \<Rightarrow> string \<Rightarrow> bool" where
  "is_set d k = (case map_of d k of None \<Rightarrow> False | Some v \<Rightarrow> v \<noteq> [])"

text \<open>A line of the description: a newline, the label and the field, when the field is set.\<close>

definition optional_line :: "string \<Rightarrow> task_details \<Rightarrow> string \<Rightarrow> string" where
  "optional_line label d k =
     (if is_set d k then ''\<newline>'' @ label @ dict_get d k [] else [])"

text \<open>\<^verbatim>\<open>sep.join(words)\<close>: what splitting undoes.\<close>

fun join :: "string \<Rightarrow> string list \<Rightarrow> string" where
  "join sep [] = []"
| "join sep [w] = w"
| "join sep (w # ws) = w @ sep @ join sep ws"

text \<open>
  The fixed pattern, in the specification's words: somewhere in the text stand one of the three
  verbs, \<^verbatim>\<open> a meeting with \<close>, a counterpart, \<^verbatim>\<open> at \<close> and a time expression (letters in
  either case, both spans not empty and on one line), and what follows the time expression
  is a period, the end of the text, or the newline that ends it.
\<close>

definition time_ends :: "string \<Rightarrow> bool" where
  "time_ends rest = (rest = [] \<or> rest = [newline] \<or> (\<exists>r. rest = CHR ''.'' # r))"

definition pattern_groups :: "string \<Rightarrow> string \<Rightarrow> string \<Rightarrow> bool" where
  "pattern_groups txt g1 g2 =
     (\<exists>before verb lit sep rest.
        txt = before @ verb @ lit @ g1 @ sep @ g2 @ rest \<and>
        map tolower verb \<in> set pattern_verbs \<and>
        map tolower lit = pattern_meeting \<and>
        map tolower sep = pattern_at \<and>
        g1 \<noteq> [] \<and> newline \<notin> set g1 \<and>
        g2 \<noteq> [] \<and> newline \<notin> set g2 \<and>
        time_ends rest)"

definition pattern_occurs :: "string \<Rightarrow> bool" where
  "pattern_occurs txt = (\<exists>g1 g2. pattern_groups txt g1 g2)"

text \<open>Nothing overwritten, no key removed: from the details before to the details after.\<close>

definition kept :: "task_details \<Rightarrow> task_details \<Rightarrow> bool" where
  "kept td td' =
     ((\<forall>k v. map_of td k = Some v \<and> v \<noteq> [] \<longrightarrow> map_of td' k = Some v) \<and>
      dom (map_of td) \<subseteq> dom (map_of td'))"

section \<open>Sample inputs\<close>

definition sample_datetime :: datetime where
  "sample_datetime = \<lparr> wall = 63869180400000000, tzinfo = Some (TzInfo ''UTC-05:00'' (- 18000)) \<rparr>"

text \<open>
  A world in which \<^verbatim>\<open>dateparser\<close> reads two strings, the transcript is the scenario of the
  specification, and every service answers.
\<close>

definition sample_env :: env where
  "sample_env =
     \<lparr> dateparser_parse =
         (\<lambda>s. if s = ''3pm tomorrow'' \<or> s = ''2024-12-07T15:00:00-05:00''
              then Inr (Some sample_datetime) else Inr None),
       isoformat =
         (\<lambda>dt. if wall dt = 63869180400000000 then ''2024-12-07T15:00:00-05:00''
               else if wall dt = 63869184000000000 then ''2024-12-07T16:00:00-05:00''
               else ''?''),
       transcribe =
         (\<lambda>path. Inr \<lparr> status_is_error = False, transcript_error = [],
                        text' = ''Schedule a meeting with Alice at 3pm tomorrow.'' \<rparr>),
       authenticate = None,
       events_insert = (\<lambda>ev. Inr (Some ''https://calendar.example/event'')),
       events_list = (\<lambda>time_min max_results. Inr []),
       now_isoformat = ''2024-12-06T12:00:00+00:00'' \<rparr>"

text \<open>
  The same world with a calendar that refuses the insert, and an end user who leaves the
  seven optional fields empty.
\<close>

definition refusing_env :: env where
  "refusing_env =
     sample_env\<lparr> events_insert :=
       (\<lambda>ev. Inl (RaisedBy ''googleapiclient'' ''HttpError 403: Forbidden'')) \<rparr>"

definition extracted_details :: task_details where
  "extracted_details =
     [(''task'', ''Meeting with Alice''), (''with_whom'', ''Alice''),
      (''date_time'', ''2024-12-07T15:00:00-05:00'')]"

definition milk_env :: env where
  "milk_env =
     sample_env\<lparr> transcribe :=
       (\<lambda>path. Inr \<lparr> status_is_error = False, transcript_error = [],
                      text' = ''Remind me to buy milk'' \<rparr>) \<rparr>"

definition blank_answers :: "string list" where
  "blank_answers = [[], [], [], [], [], [], []]"

text \<open>The two transcripts of the specification's scenarios.\<close>

definition sample_transcript :: string where
  "sample_transcript = ''Schedule a meeting with Alice at 3pm tomorrow.''"

definition other_transcript :: string where
  "other_transcript = ''Remind me to buy milk''"

definition sample_details :: task_details where
  "sample_details =
     [(''task'', ''X''), (''date_time'', ''2024-12-07T15:00:00-05:00''),
      (''description'', ''Agenda''), (''participants'', ''a@x.com, b, c@y.com''),
      (''attachments'', ''plan.pdf''), (''recurrence'', ''none''),
      (''notes'', ''Bring ID''), (''rsvp'', ''yes'')]"

definition minimal_details :: task_details where
  "minimal_details = [(''task'', ''X''), (''date_time'', ''2024-12-07T15:00:00-05:00'')]"

section \<open>Traces\<close>

lemma inserted_events_append:
  "inserted_events (xs @ ys) = inserted_events xs @ inserted_events ys"
  by (induction xs rule: inserted_events.induct) simp_all

lemma prompts_append: "prompts (xs @ ys) = prompts xs @ prompts ys"
  by (induction xs rule: prompts.induct) simp_all

lemma listings_append: "listings (xs @ ys) = listings xs @ listings ys"
  by (induction xs rule: listings.induct) simp_all

section \<open>The event that \<^verbatim>\<open>create_calendar_event\<close> sends\<close>

lemma parse_time_result:
  "parse_time E s =
     (case dateparser_parse E s of
        Inl e \<Rightarrow> ([Print (''Time parsing error: '' @ str_exn e)], Inl e)
      | Inr None \<Rightarrow>
          ([Print (''Time parsing error: '' @ ''Unable to parse the provided date and time.'')],
           Inl (ValueError ''Unable to parse the provided date and time.''))
      | Inr (Some dt) \<Rightarrow> ([], Inr dt))"
  by (simp add: parse_time_def split: sum.splits option.splits)

text \<open>At most one event is sent, and only after the date was parsed and the hour added.\<close>

lemma inserted_events_create:
  "inserted_events (create_calendar_event E td) =
     (case map_of td ''date_time'' of
        None \<Rightarrow> []
      | Some s \<Rightarrow>
          if s = [] then []
          else (case dateparser_parse E s of
                  Inl e \<Rightarrow> []
                | Inr None \<Rightarrow> []
                | Inr (Some st) \<Rightarrow>
                    (case datetime_add st (timedelta_hours 1) of
                       Inl e \<Rightarrow> []
                     | Inr en \<Rightarrow>
                         [build_event E td (dict_get td ''task'' ''No Title Provided'') st en])))"
  by (simp add: create_calendar_event_def parse_time_result error_adding_def Let_def
        split: option.splits sum.splits)

lemma build_event_times:
  "start (build_event E td title st en) =
     \<lparr> dateTime = isoformat E st, timeZone = timezone_label st \<rparr>"
  "end' (build_event E td title st en) =
     \<lparr> dateTime = isoformat E en, timeZone = timezone_label en \<rparr>"
  by (simp_all add: build_event_def initial_event_def add_participants_def add_attachments_def
        add_notes_def add_recurrence_def add_rsvp_def Let_def)

lemma datetime_add_hour:
  "datetime_add st (timedelta_hours 1) = Inr en \<Longrightarrow>
     datetime_sub en st = timedelta_hours 1 \<and> tzinfo en = tzinfo st \<and>
     wall en = wall st + 3600000000"
  by (auto simp: datetime_add_def datetime_sub_def timedelta_hours_def split: if_splits)

subsection \<open>The sample inputs, evaluated\<close>

lemma sample_hour:
  "datetime_add sample_datetime (timedelta_hours 1) =
     Inr \<lparr> wall = 63869184000000000, tzinfo = Some (TzInfo ''UTC-05:00'' (- 18000)) \<rparr>"
  by (simp add: datetime_add_def sample_datetime_def timedelta_hours_def datetime_max_def)

lemma sample_parse:
  "dateparser_parse sample_env ''2024-12-07T15:00:00-05:00'' = Inr (Some sample_datetime)"
  by (simp add: sample_env_def)

lemma sample_split:
  "split CHR '','' ''a@x.com, b, c@y.com'' = [''a@x.com'', '' b'', '' c@y.com'']"
  by simp

lemma sample_strips: "strip ''a@x.com'' = ''a@x.com''" "strip '' c@y.com'' = ''c@y.com''"
  by (simp_all add: strip_def isspace_def)

lemma sample_inserted:
  "inserted_events (create_calendar_event sample_env sample_details) =
     [\<lparr> summary = ''X'',
        description = ''Agenda\<newline>Attachments/Links: plan.pdf\<newline>Notes: Bring ID\<newline>RSVP: yes'',
        start = \<lparr> dateTime = ''2024-12-07T15:00:00-05:00'', timeZone = ''UTC-05:00'' \<rparr>,
        end' = \<lparr> dateTime = ''2024-12-07T16:00:00-05:00'', timeZone = ''UTC-05:00'' \<rparr>,
        location = [],
        attendees = [\<lparr> email = ''a@x.com'' \<rparr>, \<lparr> email = ''c@y.com'' \<rparr>],
        reminders = \<lparr> useDefault = False,
                      overrides = [\<lparr> method' = ''email'', minutes = 1440 \<rparr>,
                                   \<lparr> method' = ''popup'', minutes = 30 \<rparr>] \<rparr>,
        recurrence = Some [''RRULE:FREQ=WEEKLY;COUNT=10''] \<rparr>]"
  by (simp add: inserted_events_create sample_details_def sample_parse sample_hour)
    (simp add: build_event_def initial_event_def add_participants_def add_attachments_def
       add_notes_def add_recurrence_def add_rsvp_def Let_def dict_get_def sample_split
       sample_strips timezone_label_def sample_datetime_def newline_def sample_env_def)

lemma minimal_inserted:
  "inserted_events (create_calendar_event sample_env minimal_details) =
     [\<lparr> summary = ''X'',
        description = [],
        start = \<lparr> dateTime = ''2024-12-07T15:00:00-05:00'', timeZone = ''UTC-05:00'' \<rparr>,
        end' = \<lparr> dateTime = ''2024-12-07T16:00:00-05:00'', timeZone = ''UTC-05:00'' \<rparr>,
        location = [],
        attendees = [],
        reminders = \<lparr> useDefault = False,
                      overrides = [\<lparr> method' = ''email'', minutes = 1440 \<rparr>,
                                   \<lparr> method' = ''popup'', minutes = 30 \<rparr>] \<rparr>,
        recurrence = None \<rparr>]"
  by (simp add: inserted_events_create minimal_details_def sample_parse sample_hour)
    (simp add: build_event_def initial_event_def add_participants_def add_attachments_def
       add_notes_def add_recurrence_def add_rsvp_def Let_def dict_get_def
       timezone_label_def sample_datetime_def newline_def sample_env_def)

subsection \<open>Start and end\<close>

text \<open>
  Claim C1. When \<^verbatim>\<open>date_time\<close> is set and \<^verbatim>\<open>dateparser\<close> reads it as \<open>start_time\<close>, every
  event that \<^verbatim>\<open>create_calendar_event\<close> sends starts at \<open>start_time\<close> and ends at an
  \<open>end_time\<close> with \<open>end_time - start_time\<close> one hour exactly, in the same zone; the event
  carries the two as their ISO texts. An event is sent whenever the hour added stays within
  the range of \<^verbatim>\<open>datetime\<close> (otherwise the addition raises and nothing is built).
\<close>

theorem end_is_start_plus_one_hour:
  assumes "map_of td ''date_time'' = Some s" and "s \<noteq> []"
    and "dateparser_parse E s = Inr (Some start_time)"
  shows "(\<forall>ev \<in> set (inserted_events (create_calendar_event E td)).
            \<exists>end_time.
              datetime_add start_time (timedelta_hours 1) = Inr end_time \<and>
              datetime_sub end_time start_time = timedelta_hours 1 \<and>
              tzinfo end_time = tzinfo start_time \<and>
              start ev = \<lparr> dateTime = isoformat E start_time,
                            timeZone = timezone_label start_time \<rparr> \<and>
              end' ev = \<lparr> dateTime = isoformat E end_time,
                           timeZone = timezone_label end_time \<rparr>) \<and>
         (wall start_time \<in> {0 .. datetime_max - 3600000000} \<longrightarrow>
            inserted_events (create_calendar_event E td) \<noteq> [])"
proof (cases "datetime_add start_time (timedelta_hours 1)")
  case (Inl e)
  then have "inserted_events (create_calendar_event E td) = []"
    using assms by (simp add: inserted_events_create)
  moreover have "wall start_time \<notin> {0 .. datetime_max - 3600000000}"
    using Inl by (auto simp: datetime_add_def timedelta_hours_def split: if_splits)
  ultimately show ?thesis by simp
next
  case (Inr end_time)
  then have "inserted_events (create_calendar_event E td) =
      [build_event E td (dict_get td ''task'' ''No Title Provided'') start_time end_time]"
    using assms by (simp add: inserted_events_create)
  then show ?thesis
    using Inr datetime_add_hour [OF Inr] by (simp add: build_event_times)
qed

theorem end_is_start_plus_one_hour_witness:
  "map_of sample_details ''date_time'' = Some ''2024-12-07T15:00:00-05:00'' \<and>
   dateparser_parse sample_env ''2024-12-07T15:00:00-05:00'' = Inr (Some sample_datetime) \<and>
   wall sample_datetime \<in> {0 .. datetime_max - 3600000000} \<and>
   inserted_events (create_calendar_event sample_env sample_details) \<noteq> [] \<and>
   (\<exists>end_time.
      datetime_sub end_time sample_datetime = timedelta_hours 1 \<and>
      end' (hd (inserted_events (create_calendar_event sample_env sample_details))) =
        \<lparr> dateTime = isoformat sample_env end_time, timeZone = timezone_label end_time \<rparr>) \<and>
   map (\<lambda>ev. (dateTime (start ev), dateTime (end' ev)))
     (inserted_events (create_calendar_event sample_env sample_details))
     = [(''2024-12-07T15:00:00-05:00'', ''2024-12-07T16:00:00-05:00'')]"
proof -
  let ?L = "inserted_events (create_calendar_event sample_env sample_details)"
  have h1: "map_of sample_details ''date_time'' = Some ''2024-12-07T15:00:00-05:00''"
    by (simp add: sample_details_def)
  have h2: "''2024-12-07T15:00:00-05:00'' \<noteq> []" by simp
  have h4: "wall sample_datetime \<in> {0 .. datetime_max - 3600000000}"
    by (simp add: sample_datetime_def datetime_max_def)
  note t = end_is_start_plus_one_hour [OF h1 h2 sample_parse]
  from t h4 have ne: "?L \<noteq> []" by blast
  then have "hd ?L \<in> set ?L" by simp
  with t have "\<exists>end_time.
      datetime_sub end_time sample_datetime = timedelta_hours 1 \<and>
      end' (hd ?L) =
        \<lparr> dateTime = isoformat sample_env end_time, timeZone = timezone_label end_time \<rparr>"
    by blast
  moreover have "map (\<lambda>ev. (dateTime (start ev), dateTime (end' ev))) ?L
     = [(''2024-12-07T15:00:00-05:00'', ''2024-12-07T16:00:00-05:00'')]"
    by (simp add: sample_inserted)
  ultimately show ?thesis using h1 h4 ne sample_parse by simp
qed

lemma dict_get_set: "(dict_get td k [] \<noteq> []) = is_set td k"
  by (simp add: dict_get_def is_set_def split: option.splits)

lemma build_event_description:
  "description (build_event E td title st en) =
     dict_get td ''description'' [] @
     optional_line ''Attachments/Links: '' td ''attachments'' @
     optional_line ''Notes: '' td ''notes'' @
     optional_line ''RSVP: '' td ''rsvp''"
  by (simp add: build_event_def initial_event_def add_participants_def add_attachments_def
        add_notes_def add_recurrence_def add_rsvp_def Let_def optional_line_def newline_def
        dict_get_set)

lemma build_event_recurrence:
  "recurrence (build_event E td title st en) =
     (if is_set td ''recurrence'' then Some [''RRULE:FREQ=WEEKLY;COUNT=10''] else None)"
  by (simp add: build_event_def initial_event_def add_participants_def add_attachments_def
        add_notes_def add_recurrence_def add_rsvp_def Let_def dict_get_set)

lemma split_not_Nil: "split sep s \<noteq> []"
  by (induction s) (auto split: list.splits)

lemma join_split: "join [sep] (split sep s) = s"
proof (induction s)
  case Nil
  show ?case by simp
next
  case (Cons c cs)
  obtain w ws where ws: "split sep cs = w # ws"
    using split_not_Nil [of sep cs] by (cases "split sep cs") auto
  show ?case
  proof (cases "c = sep")
    case True
    then show ?thesis using Cons ws by simp
  next
    case False
    then show ?thesis using Cons ws by (cases ws) auto
  qed
qed

lemma split_no_sep: "w \<in> set (split sep s) \<Longrightarrow> sep \<notin> set w"
proof (induction s arbitrary: w)
  case Nil
  then show ?case by simp
next
  case (Cons c cs)
  then show ?case by (auto split: if_splits list.splits)
qed

lemma split_empty: "filter (\<lambda>e. CHR ''@'' \<in> set e) (split CHR '','' []) = []"
  by simp

lemma build_event_attendees:
  "attendees (build_event E td title st en) =
     map (\<lambda>e. \<lparr> email = strip e \<rparr>)
       (filter (\<lambda>e. CHR ''@'' \<in> set e) (split CHR '','' (dict_get td ''participants'' [])))"
  by (simp add: build_event_def initial_event_def add_participants_def add_attachments_def
        add_notes_def add_recurrence_def add_rsvp_def Let_def)

lemma inserted_events_built:
  assumes "ev \<in> set (inserted_events (create_calendar_event E td))"
  shows "\<exists>st en. ev = build_event E td (dict_get td ''task'' ''No Title Provided'') st en"
proof (cases "map_of td ''date_time''")
  case None
  then show ?thesis using assms by (simp add: inserted_events_create split: if_splits)
next
  case (Some s)
  show ?thesis
  proof (cases "dateparser_parse E s")
    case (Inl e)
    then show ?thesis using assms Some by (simp add: inserted_events_create split: if_splits)
  next
    case (Inr parsed)
    show ?thesis
    proof (cases parsed)
      case None
      then show ?thesis using assms Some Inr by (simp add: inserted_events_create split: if_splits)
    next
      case (Some st)
      show ?thesis
      proof (cases "datetime_add st (timedelta_hours 1)")
        case (Inl e)
        then show ?thesis
          using assms \<open>map_of td ''date_time'' = Some s\<close> Inr Some
          by (simp add: inserted_events_create split: if_splits)
      next
        case (Inr en)
        then have "ev = build_event E td (dict_get td ''task'' ''No Title Provided'') st en"
          using assms \<open>map_of td ''date_time'' = Some s\<close>
            \<open>dateparser_parse E s = Inr parsed\<close> Some
          by (simp add: inserted_events_create split: if_splits)
        then show ?thesis by blast
      qed
    qed
  qed
qed

text \<open>
  Claim C3, amended. The description of every event sent is the raw \<^verbatim>\<open>description\<close> field
  (the empty string when absent), then in this order a line \<^verbatim>\<open>Attachments/Links: ...\<close> exactly
  when \<^verbatim>\<open>attachments\<close> is set, a line \<^verbatim>\<open>Notes: ...\<close> exactly when \<^verbatim>\<open>notes\<close> is set, a line
  \<^verbatim>\<open>RSVP: ...\<close> exactly when \<^verbatim>\<open>rsvp\<close> is set, and nothing else.
\<close>

theorem description_is_composed:
  "\<forall>ev \<in> set (inserted_events (create_calendar_event E td)).
     description ev =
       dict_get td ''description'' [] @
       optional_line ''Attachments/Links: '' td ''attachments'' @
       optional_line ''Notes: '' td ''notes'' @
       optional_line ''RSVP: '' td ''rsvp''"
proof
  fix ev
  assume "ev \<in> set (inserted_events (create_calendar_event E td))"
  then obtain st en title where "ev = build_event E td title st en"
    using inserted_events_built by blast
  then show "description ev =
       dict_get td ''description'' [] @
       optional_line ''Attachments/Links: '' td ''attachments'' @
       optional_line ''Notes: '' td ''notes'' @
       optional_line ''RSVP: '' td ''rsvp''"
    by (simp add: build_event_description)
qed

text \<open>
  Claim C6. Every event sent has the recurrence key, with the one fixed weekly rule of ten
  occurrences, when the \<^verbatim>\<open>recurrence\<close> field is set, whatever its text; it has no recurrence
  key when the field is empty or absent.
\<close>

theorem recurrence_is_binary:
  "\<forall>ev \<in> set (inserted_events (create_calendar_event E td)).
     (is_set td ''recurrence'' \<longrightarrow> recurrence ev = Some [''RRULE:FREQ=WEEKLY;COUNT=10'']) \<and>
     (\<not> is_set td ''recurrence'' \<longrightarrow> recurrence ev = None)"
proof
  fix ev
  assume "ev \<in> set (inserted_events (create_calendar_event E td))"
  then obtain st en title where "ev = build_event E td title st en"
    using inserted_events_built by blast
  then show "(is_set td ''recurrence'' \<longrightarrow> recurrence ev = Some [''RRULE:FREQ=WEEKLY;COUNT=10'']) \<and>
     (\<not> is_set td ''recurrence'' \<longrightarrow> recurrence ev = None)"
    by (simp add: build_event_recurrence)
qed

text \<open>
  Claim C7. The attendees of every event sent are the entries of the \<^verbatim>\<open>participants\<close> string
  between its commas (joined by commas they give the string back, and none holds a comma),
  those with an \<^verbatim>\<open>@\<close> kept in order, each stripped; for \<^verbatim>\<open>a@x.com, b, c@y.com\<close> they are
  \<^verbatim>\<open>a@x.com\<close> and \<^verbatim>\<open>c@y.com\<close>.
\<close>

theorem attendees_are_entries_with_at:
  "\<forall>ev \<in> set (inserted_events (create_calendar_event E td)).
     (\<exists>entries.
        entries \<noteq> [] \<and>
        join '','' entries = dict_get td ''participants'' [] \<and>
        (\<forall>w \<in> set entries. CHR '','' \<notin> set w) \<and>
        attendees ev =
          map (\<lambda>e. \<lparr> email = strip e \<rparr>) (filter (\<lambda>e. CHR ''@'' \<in> set e) entries)) \<and>
     (dict_get td ''participants'' [] = ''a@x.com, b, c@y.com'' \<longrightarrow>
        attendees ev = [\<lparr> email = ''a@x.com'' \<rparr>, \<lparr> email = ''c@y.com'' \<rparr>])"
proof
  fix ev
  assume "ev \<in> set (inserted_events (create_calendar_event E td))"
  then obtain st en title where ev: "ev = build_event E td title st en"
    using inserted_events_built by blast
  let ?entries = "split CHR '','' (dict_get td ''participants'' [])"
  have "?entries \<noteq> []" by (rule split_not_Nil)
  moreover have "join '','' ?entries = dict_get td ''participants'' []" by (rule join_split)
  moreover have "\<forall>w \<in> set ?entries. CHR '','' \<notin> set w" using split_no_sep by blast
  moreover have "attendees ev =
      map (\<lambda>e. \<lparr> email = strip e \<rparr>) (filter (\<lambda>e. CHR ''@'' \<in> set e) ?entries)"
    by (simp add: ev build_event_attendees)
  moreover have "dict_get td ''participants'' [] = ''a@x.com, b, c@y.com'' \<longrightarrow>
        attendees ev = [\<lparr> email = ''a@x.com'' \<rparr>, \<lparr> email = ''c@y.com'' \<rparr>]"
    by (simp add: ev build_event_attendees sample_strips)
  ultimately show "(\<exists>entries.
        entries \<noteq> [] \<and>
        join '','' entries = dict_get td ''participants'' [] \<and>
        (\<forall>w \<in> set entries. CHR '','' \<notin> set w) \<and>
        attendees ev =
          map (\<lambda>e. \<lparr> email = strip e \<rparr>) (filter (\<lambda>e. CHR ''@'' \<in> set e) entries)) \<and>
     (dict_get td ''participants'' [] = ''a@x.com, b, c@y.com'' \<longrightarrow>
        attendees ev = [\<lparr> email = ''a@x.com'' \<rparr>, \<lparr> email = ''c@y.com'' \<rparr>])"
    by blast
qed

text \<open>
  Claim C9. When \<^verbatim>\<open>rsvp\<close> is set, the description of every event sent ends with the line
  \<^verbatim>\<open>RSVP: ...\<close>, after the raw description and the Attachments/Links and Notes lines; when it
  is empty or absent, no such line is added.
\<close>

theorem rsvp_line_is_last:
  "\<forall>ev \<in> set (inserted_events (create_calendar_event E td)).
     (is_set td ''rsvp'' \<longrightarrow>
        description ev =
          (dict_get td ''description'' [] @
           optional_line ''Attachments/Links: '' td ''attachments'' @
           optional_line ''Notes: '' td ''notes'') @
          ''\<newline>RSVP: '' @ dict_get td ''rsvp'' []) \<and>
     (\<not> is_set td ''rsvp'' \<longrightarrow>
        description ev =
          dict_get td ''description'' [] @
          optional_line ''Attachments/Links: '' td ''attachments'' @
          optional_line ''Notes: '' td ''notes'')"
proof
  fix ev
  assume "ev \<in> set (inserted_events (create_calendar_event E td))"
  then obtain st en title where "ev = build_event E td title st en"
    using inserted_events_built by blast
  then have "description ev =
       dict_get td ''description'' [] @
       optional_line ''Attachments/Links: '' td ''attachments'' @
       optional_line ''Notes: '' td ''notes'' @
       optional_line ''RSVP: '' td ''rsvp''"
    by (simp add: build_event_description)
  then show "(is_set td ''rsvp'' \<longrightarrow>
        description ev =
          (dict_get td ''description'' [] @
           optional_line ''Attachments/Links: '' td ''attachments'' @
           optional_line ''Notes: '' td ''notes'') @
          ''\<newline>RSVP: '' @ dict_get td ''rsvp'' []) \<and>
     (\<not> is_set td ''rsvp'' \<longrightarrow>
        description ev =
          dict_get td ''description'' [] @
          optional_line ''Attachments/Links: '' td ''attachments'' @
          optional_line ''Notes: '' td ''notes'')"
    by (simp add: optional_line_def [of "''RSVP: ''"])
qed

text \<open>
  Claim C10. When \<^verbatim>\<open>date_time\<close> is absent or empty, \<^verbatim>\<open>create_calendar_event\<close> prints that
  the date and time were not provided and does nothing else: it sends no event, and (as on
  every path) it returns without an exception.
\<close>

theorem no_date_time_no_event:
  assumes "\<not> is_set td ''date_time''"
  shows "create_calendar_event E td = [Print ''Event date and time not provided.''] \<and>
         inserted_events (create_calendar_event E td) = []"
  using assms
  by (auto simp: create_calendar_event_def is_set_def Let_def split: option.splits)


lemma sample_nonempty:
  "inserted_events (create_calendar_event sample_env sample_details) \<noteq> []"
  "inserted_events (create_calendar_event sample_env minimal_details) \<noteq> []"
  by (simp_all add: sample_inserted minimal_inserted)

lemma sample_fields:
  "is_set sample_details ''recurrence''" "is_set sample_details ''rsvp''"
  "\<not> is_set minimal_details ''recurrence''" "\<not> is_set minimal_details ''rsvp''"
  "dict_get sample_details ''participants'' [] = ''a@x.com, b, c@y.com''"
  "dict_get sample_details ''rsvp'' [] = ''yes''"
  "dict_get sample_details ''description'' [] @
     optional_line ''Attachments/Links: '' sample_details ''attachments'' @
     optional_line ''Notes: '' sample_details ''notes''
   = ''Agenda\<newline>Attachments/Links: plan.pdf\<newline>Notes: Bring ID''"
  "optional_line ''RSVP: '' sample_details ''rsvp'' = ''\<newline>RSVP: yes''"
  by (simp_all add: is_set_def sample_details_def minimal_details_def dict_get_def
        optional_line_def)

text \<open>
  Claim C3, as stated, fails: for the sample details, whose \<^verbatim>\<open>rsvp\<close> is \<^verbatim>\<open>yes\<close>, the description sent
  is not the raw description with the Attachments/Links and Notes lines and nothing else: an
  RSVP line follows them.
\<close>

theorem description_without_rsvp_counterexample:
  "map description (inserted_events (create_calendar_event sample_env sample_details)) =
     [''Agenda\<newline>Attachments/Links: plan.pdf\<newline>Notes: Bring ID\<newline>RSVP: yes''] \<and>
   dict_get sample_details ''description'' [] @
     optional_line ''Attachments/Links: '' sample_details ''attachments'' @
     optional_line ''Notes: '' sample_details ''notes''
     = ''Agenda\<newline>Attachments/Links: plan.pdf\<newline>Notes: Bring ID'' \<and>
   map description (inserted_events (create_calendar_event sample_env sample_details)) \<noteq>
     [dict_get sample_details ''description'' [] @
      optional_line ''Attachments/Links: '' sample_details ''attachments'' @
      optional_line ''Notes: '' sample_details ''notes'']"
  by (simp add: sample_inserted sample_fields)

text \<open>
  The sample details carry all four fields.
\<close>

theorem description_is_composed_witness:
  "inserted_events (create_calendar_event sample_env sample_details) \<noteq> [] \<and>
   description (hd (inserted_events (create_calendar_event sample_env sample_details))) =
     ''Agenda\<newline>Attachments/Links: plan.pdf\<newline>Notes: Bring ID\<newline>RSVP: yes''"
proof -
  let ?L = "inserted_events (create_calendar_event sample_env sample_details)"
  have "hd ?L \<in> set ?L" using sample_nonempty(1) by simp
  then have "description (hd ?L) =
       dict_get sample_details ''description'' [] @
       optional_line ''Attachments/Links: '' sample_details ''attachments'' @
       optional_line ''Notes: '' sample_details ''notes'' @
       optional_line ''RSVP: '' sample_details ''rsvp''"
    using description_is_composed [of sample_env sample_details] by blast
  then have "description (hd ?L) =
      (dict_get sample_details ''description'' [] @
       optional_line ''Attachments/Links: '' sample_details ''attachments'' @
       optional_line ''Notes: '' sample_details ''notes'') @
       optional_line ''RSVP: '' sample_details ''rsvp''"
    by simp
  then show ?thesis
    unfolding sample_fields using sample_nonempty(1) by simp
qed

text \<open>
  The sample details say \<^verbatim>\<open>none\<close> and get the rule; the minimal details have no such field.
\<close>

theorem recurrence_is_binary_witness:
  "is_set sample_details ''recurrence'' \<and>
   recurrence (hd (inserted_events (create_calendar_event sample_env sample_details))) =
     Some [''RRULE:FREQ=WEEKLY;COUNT=10''] \<and>
   \<not> is_set minimal_details ''recurrence'' \<and>
   recurrence (hd (inserted_events (create_calendar_event sample_env minimal_details))) = None"
proof -
  let ?L = "inserted_events (create_calendar_event sample_env sample_details)"
  let ?M = "inserted_events (create_calendar_event sample_env minimal_details)"
  have "hd ?L \<in> set ?L" and "hd ?M \<in> set ?M" using sample_nonempty by simp_all
  then show ?thesis
    using recurrence_is_binary [of sample_env sample_details]
      recurrence_is_binary [of sample_env minimal_details] sample_fields(1,3)
    by blast
qed

text \<open>
  The sample details hold the participants of the specification's example.
\<close>

theorem attendees_are_entries_with_at_witness:
  "dict_get sample_details ''participants'' [] = ''a@x.com, b, c@y.com'' \<and>
   inserted_events (create_calendar_event sample_env sample_details) \<noteq> [] \<and>
   attendees (hd (inserted_events (create_calendar_event sample_env sample_details))) =
     [\<lparr> email = ''a@x.com'' \<rparr>, \<lparr> email = ''c@y.com'' \<rparr>]"
proof -
  let ?L = "inserted_events (create_calendar_event sample_env sample_details)"
  have "hd ?L \<in> set ?L" using sample_nonempty(1) by simp
  then show ?thesis
    using attendees_are_entries_with_at [of sample_env sample_details] sample_fields(5)
      sample_nonempty(1)
    by blast
qed

text \<open>
  The sample details ask for an RSVP.
\<close>

theorem rsvp_line_is_last_witness:
  "is_set sample_details ''rsvp'' \<and>
   description (hd (inserted_events (create_calendar_event sample_env sample_details))) =
     ''Agenda\<newline>Attachments/Links: plan.pdf\<newline>Notes: Bring ID'' @ ''\<newline>RSVP: '' @ ''yes''"
proof -
  let ?L = "inserted_events (create_calendar_event sample_env sample_details)"
  have "hd ?L \<in> set ?L" using sample_nonempty(1) by simp
  then have "description (hd ?L) =
          (dict_get sample_details ''description'' [] @
           optional_line ''Attachments/Links: '' sample_details ''attachments'' @
           optional_line ''Notes: '' sample_details ''notes'') @
          ''\<newline>RSVP: '' @ dict_get sample_details ''rsvp'' []"
    using rsvp_line_is_last [of sample_env sample_details] sample_fields(2) by blast
  then show ?thesis
    unfolding sample_fields using sample_fields(2) by simp
qed

text \<open>
  Details without the key, and details with the key and an empty value.
\<close>

theorem no_date_time_no_event_witness:
  "\<not> is_set [(''task'', ''X'')] ''date_time'' \<and>
   create_calendar_event sample_env [(''task'', ''X'')] =
     [Print ''Event date and time not provided.''] \<and>
   \<not> is_set [(''task'', ''X''), (''date_time'', [])] ''date_time'' \<and>
   inserted_events (create_calendar_event sample_env [(''task'', ''X''), (''date_time'', [])]) = []"
proof -
  have a: "\<not> is_set [(''task'', ''X'')] ''date_time''" by (simp add: is_set_def)
  have b: "\<not> is_set [(''task'', ''X''), (''date_time'', [])] ''date_time''"
    by (simp add: is_set_def)
  show ?thesis
    using a b no_date_time_no_event [OF a, of sample_env] no_date_time_no_event [OF b, of sample_env]
    by blast
qed

section \<open>The Interactive Field Completer\<close>

text \<open>
  A prefix put before the output leaves the result.
\<close>

lemma snd_prefixed: "snd (case p of (out, r) \<Rightarrow> (h out, r)) = snd p"
  by (cases p) simp

lemma is_set_iff: "is_set d k = (map_of d k \<noteq> None \<and> map_of d k \<noteq> Some [])"
  by (simp add: is_set_def split: option.splits)

lemma is_set_update: "r \<noteq> [] \<Longrightarrow> is_set (AList.update k r d) k"
  by (simp add: is_set_def update_conv')

lemma ask_again_response: "snd (ask_again q ins) = Inr (r, rest) \<Longrightarrow> r \<noteq> []"
proof (induction ins)
  case Nil
  then show ?case by simp
next
  case (Cons line more)
  then show ?case by (cases "strip line = []") (simp_all add: snd_prefixed Let_def)
qed

text \<open>One round of the loop: it fails, or goes on with the details kept or one unset field set.\<close>

lemma ask_fields_step:
  "(\<exists>e. snd (ask_fields ((f, q, m) # fs) td ins) = Inl e) \<or>
   (\<exists>td1 ins1.
      snd (ask_fields ((f, q, m) # fs) td ins) = snd (ask_fields fs td1 ins1) \<and>
      (td1 = td \<or> (\<not> is_set td f \<and> (\<exists>r. r \<noteq> [] \<and> td1 = AList.update f r td))) \<and>
      (m \<longrightarrow> is_set td1 f))"
proof (cases "is_set td f")
  case True
  then have "ask_fields ((f, q, m) # fs) td ins = ask_fields fs td ins"
    by (simp add: is_set_iff)
  then show ?thesis using True by auto
next
  case unset: False
  show ?thesis
  proof (cases ins)
    case Nil
    then show ?thesis using unset by (auto simp: is_set_iff)
  next
    case (Cons line rest)
    show ?thesis
    proof (cases "strip line = []")
      case False
      then have "snd (ask_fields ((f, q, m) # fs) td ins) =
          snd (ask_fields fs (AList.update f (strip line) td) rest)"
        using unset Cons by (auto simp: is_set_iff snd_prefixed Let_def)
      then show ?thesis using unset False is_set_update by blast
    next
      case blank: True
      show ?thesis
      proof (cases m)
        case False
        then have "snd (ask_fields ((f, q, m) # fs) td ins) = snd (ask_fields fs td rest)"
          using unset Cons blank by (auto simp: is_set_iff snd_prefixed Let_def)
        then show ?thesis using False by blast
      next
        case True
        obtain asked res where again: "ask_again q rest = (asked, res)"
          by (cases "ask_again q rest") auto
        show ?thesis
        proof (cases res)
          case (Inl e)
          then have "snd (ask_fields ((f, q, m) # fs) td ins) = Inl e"
            using unset Cons blank True again by (auto simp: is_set_iff Let_def)
          then show ?thesis by blast
        next
          case (Inr found)
          obtain r rest' where found: "found = (r, rest')" by (cases found) auto
          have r: "r \<noteq> []"
            using ask_again_response [of q rest r rest'] again Inr found by simp
          have "snd (ask_fields ((f, q, m) # fs) td ins) =
              snd (ask_fields fs (AList.update f r td) rest')"
            using unset Cons blank True again Inr found
            by (auto simp: is_set_iff snd_prefixed Let_def)
          then show ?thesis using unset r is_set_update by blast
        qed
      qed
    qed
  qed
qed

lemma update_keeps_set:
  "\<not> is_set td f \<Longrightarrow> map_of td k = Some v \<Longrightarrow> v \<noteq> [] \<Longrightarrow>
     map_of (AList.update f r td) k = Some v"
  by (auto simp: update_conv' is_set_def split: option.splits)

lemma update_keeps_keys: "dom (map_of td) \<subseteq> dom (map_of (AList.update f r td))"
  by (auto simp: update_conv')

lemma kept_refl: "kept td td"
  by (simp add: kept_def)

lemma kept_trans:
  assumes "kept a b" and "kept b c"
  shows "kept a c"
proof -
  have "dom (map_of a) \<subseteq> dom (map_of c)"
    using assms unfolding kept_def by blast
  moreover have "\<forall>k v. map_of a k = Some v \<and> v \<noteq> [] \<longrightarrow> map_of c k = Some v"
    using assms unfolding kept_def by blast
  ultimately show ?thesis by (simp add: kept_def)
qed

lemma kept_update: "\<not> is_set td f \<Longrightarrow> kept td (AList.update f r td)"
  unfolding kept_def using update_keeps_set [of td f] update_keeps_keys [of td f r] by blast

lemma kept_is_set: "kept a b \<Longrightarrow> is_set a k \<Longrightarrow> is_set b k"
  by (auto simp: kept_def is_set_def split: option.splits)

declare ask_fields.simps [simp del]

lemma ask_fields_kept:
  "snd (ask_fields fs td ins) = Inr (td', rest) \<Longrightarrow>
     kept td td' \<and> (\<forall>(f, q, m) \<in> set fs. m \<longrightarrow> is_set td' f)"
proof (induction fs arbitrary: td ins)
  case Nil
  then show ?case by (simp add: kept_refl ask_fields.simps)
next
  case (Cons field fs)
  obtain f q m where field: "field = (f, q, m)" by (cases field) auto
  have prem: "snd (ask_fields ((f, q, m) # fs) td ins) = Inr (td', rest)"
    using Cons.prems unfolding field .
  from ask_fields_step [of f q m fs td ins]
  have "\<exists>td1 ins1.
      Inr (td', rest) = snd (ask_fields fs td1 ins1) \<and>
      (td1 = td \<or> (\<not> is_set td f \<and> (\<exists>r. r \<noteq> [] \<and> td1 = AList.update f r td))) \<and>
      (m \<longrightarrow> is_set td1 f)"
    unfolding prem by simp
  then obtain td1 ins1 where
    go: "snd (ask_fields fs td1 ins1) = Inr (td', rest)" and
    td1: "td1 = td \<or> (\<not> is_set td f \<and> (\<exists>r. r \<noteq> [] \<and> td1 = AList.update f r td))" and
    m: "m \<longrightarrow> is_set td1 f"
    by metis
  from Cons.IH [OF go] have k1: "kept td1 td'"
    and rest: "\<forall>(f, q, m) \<in> set fs. m \<longrightarrow> is_set td' f" by auto
  from td1 have "kept td td1" using kept_refl kept_update by auto
  with k1 have "kept td td'" using kept_trans by blast
  moreover from m k1 have "m \<longrightarrow> is_set td' f" using kept_is_set by blast
  ultimately show ?case using rest field by simp
qed


lemma ask_again_finds:
  "\<exists>l \<in> set a. strip l \<noteq> [] \<Longrightarrow> \<exists>r a'. snd (ask_again q (a @ c)) = Inr (r, a' @ c)"
proof (induction a)
  case Nil
  then show ?case by simp
next
  case (Cons line a)
  show ?case
  proof (cases "strip line = []")
    case True
    then have "\<exists>l \<in> set a. strip l \<noteq> []" using Cons.prems by auto
    then show ?thesis using Cons.IH True by (simp add: snd_prefixed)
  next
    case False
    then have "snd (ask_again q ((line # a) @ c)) = Inr (strip line, a @ c)"
      by (simp add: Let_def)
    then show ?thesis by blast
  qed
qed

lemma ask_fields_mandatory_step:
  assumes "\<exists>l \<in> set a. strip l \<noteq> []"
  shows "\<exists>td1 a'. snd (ask_fields ((f, q, True) # fs) td (a @ c)) =
                   snd (ask_fields fs td1 (a' @ c))"
proof (cases "is_set td f")
  case True
  then have "ask_fields ((f, q, True) # fs) td (a @ c) = ask_fields fs td (a @ c)"
    by (simp add: is_set_iff ask_fields.simps)
  then show ?thesis by metis
next
  case unset: False
  obtain line a0 where a: "a = line # a0" using assms by (cases a) auto
  show ?thesis
  proof (cases "strip line = []")
    case False
    then have "snd (ask_fields ((f, q, True) # fs) td (a @ c)) =
        snd (ask_fields fs (AList.update f (strip line) td) (a0 @ c))"
      using unset a by (auto simp: is_set_iff snd_prefixed Let_def ask_fields.simps)
    then show ?thesis by blast
  next
    case True
    then have "\<exists>l \<in> set a0. strip l \<noteq> []" using assms a by auto
    then obtain r a' where found: "snd (ask_again q (a0 @ c)) = Inr (r, a' @ c)"
      using ask_again_finds by blast
    obtain asked where "ask_again q (a0 @ c) = (asked, Inr (r, a' @ c))"
      using found by (cases "ask_again q (a0 @ c)") auto
    then have "snd (ask_fields ((f, q, True) # fs) td (a @ c)) =
        snd (ask_fields fs (AList.update f r td) (a' @ c))"
      using unset a True by (auto simp: is_set_iff snd_prefixed Let_def ask_fields.simps)
    then show ?thesis by blast
  qed
qed

lemma ask_fields_optional:
  "\<forall>(f, q, m) \<in> set fs. \<not> m \<Longrightarrow> length fs \<le> length ins \<Longrightarrow>
     \<exists>td' rest. snd (ask_fields fs td ins) = Inr (td', rest)"
proof (induction fs arbitrary: td ins)
  case Nil
  then show ?case by (simp add: ask_fields.simps)
next
  case (Cons field fs)
  obtain f q where field: "field = (f, q, False)"
    using Cons.prems(1) by (cases field) auto
  obtain line rest where ins: "ins = line # rest"
    using Cons.prems(2) by (cases ins) auto
  have opt: "\<forall>(f, q, m) \<in> set fs. \<not> m" using Cons.prems(1) by simp
  have len: "length fs \<le> length rest" "length fs \<le> length ins"
    using Cons.prems(2) ins by simp_all
  have "snd (ask_fields (field # fs) td ins) = snd (ask_fields fs td ins) \<or>
        snd (ask_fields (field # fs) td ins) = snd (ask_fields fs td rest) \<or>
        snd (ask_fields (field # fs) td ins) =
          snd (ask_fields fs (AList.update f (strip line) td) rest)"
    unfolding field ins by (simp add: snd_prefixed Let_def ask_fields.simps)
  then show ?case
    using Cons.IH [OF opt len(1)] Cons.IH [OF opt len(2)] by metis
qed

lemma required_fields_shape:
  "\<exists>q1 q2 others.
     required_fields = (''task'', q1, True) # (''date_time'', q2, True) # others \<and>
     (\<forall>(f, q, m) \<in> set others. \<not> m) \<and> length others = 7"
  by (simp add: required_fields_def)

lemma snd_ask_follow_up:
  "snd (ask_follow_up_questions td ins) = snd (ask_fields required_fields td ins)"
  by (simp add: ask_follow_up_questions_def snd_prefixed)

text \<open>
  Claim C5. Whenever \<^verbatim>\<open>ask_follow_up_questions\<close> returns, every field that had a non-empty value
  still has that value, every key is still there, and \<^verbatim>\<open>task\<close> and \<^verbatim>\<open>date_time\<close> are set. It
  returns whenever standard input holds a non-blank line (the answer to the first mandatory
  prompt comes at last), later a second one, and seven more lines after that for the optional
  prompts; only the end of standard input stops it otherwise.
\<close>

theorem completer_keeps_and_completes:
  "(\<forall>td' rest.
      snd (ask_follow_up_questions td stdin) = Inr (td', rest) \<longrightarrow>
        (\<forall>k v. map_of td k = Some v \<and> v \<noteq> [] \<longrightarrow> map_of td' k = Some v) \<and>
        dom (map_of td) \<subseteq> dom (map_of td') \<and>
        is_set td' ''task'' \<and> is_set td' ''date_time'') \<and>
   (\<forall>a b c.
      stdin = a @ b @ c \<and> (\<exists>l \<in> set a. strip l \<noteq> []) \<and> (\<exists>l \<in> set b. strip l \<noteq> []) \<and>
      7 \<le> length c \<longrightarrow>
        (\<exists>td' rest. snd (ask_follow_up_questions td stdin) = Inr (td', rest)))"
proof -
  have part1: "(\<forall>k v. map_of td k = Some v \<and> v \<noteq> [] \<longrightarrow> map_of td' k = Some v) \<and>
        dom (map_of td) \<subseteq> dom (map_of td') \<and>
        is_set td' ''task'' \<and> is_set td' ''date_time''"
    if "snd (ask_follow_up_questions td stdin) = Inr (td', rest)" for td' rest
  proof -
    from that have "snd (ask_fields required_fields td stdin) = Inr (td', rest)"
      by (simp add: snd_ask_follow_up)
    from ask_fields_kept [OF this]
    have k: "kept td td'" and m: "\<forall>(f, q, m) \<in> set required_fields. m \<longrightarrow> is_set td' f"
      by auto
    from m have "is_set td' ''task''" "is_set td' ''date_time''"
      by (simp_all add: required_fields_def)
    with k show ?thesis by (simp add: kept_def)
  qed
  have part2: "\<exists>td' rest. snd (ask_follow_up_questions td stdin) = Inr (td', rest)"
    if h: "stdin = a @ b @ c \<and> (\<exists>l \<in> set a. strip l \<noteq> []) \<and>
             (\<exists>l \<in> set b. strip l \<noteq> []) \<and> 7 \<le> length c" for a b c
  proof -
    obtain q1 q2 others where
      shape: "required_fields = (''task'', q1, True) # (''date_time'', q2, True) # others" and
      opt: "\<forall>(f, q, m) \<in> set others. \<not> m" and len: "length others = 7"
      using required_fields_shape by blast
    from h have st: "stdin = a @ b @ c" and ne: "\<exists>l \<in> set a. strip l \<noteq> []" by simp_all
    from ask_fields_mandatory_step
      [OF ne, of "''task''" q1 "(''date_time'', q2, True) # others" td "b @ c"]
    obtain td1 a' where
      s1: "snd (ask_fields required_fields td stdin) =
           snd (ask_fields ((''date_time'', q2, True) # others) td1 (a' @ b @ c))"
      unfolding shape st by blast
    from h have "\<exists>l \<in> set (a' @ b). strip l \<noteq> []" by auto
    then obtain td2 a'' where
      s2: "snd (ask_fields ((''date_time'', q2, True) # others) td1 ((a' @ b) @ c)) =
           snd (ask_fields others td2 (a'' @ c))"
      using ask_fields_mandatory_step [of "a' @ b" "''date_time''" q2 others td1 c] by blast
    have "length others \<le> length (a'' @ c)" using h len by simp
    from ask_fields_optional [OF opt this, of td2] s1 s2
    show ?thesis by (simp add: snd_ask_follow_up)
  qed
  from part1 part2 show ?thesis by blast
qed


lemma sample_completion:
  "snd (ask_follow_up_questions [(''with_whom'', ''Alice''), (''location'', ''Room 1'')]
          ([''Team sync''] @ ['''', '' tomorrow 3pm ''] @
           [''d'', '''', '''', '''', '''', '''', ''extra'']))
   = Inr ([(''with_whom'', ''Alice''), (''location'', ''Room 1''), (''task'', ''Team sync''),
           (''date_time'', ''tomorrow 3pm''), (''description'', ''d'')], [''extra''])"
  by code_simp

text \<open>
  A run that asks for the title once, for the date three times, and for six optional fields.
\<close>

theorem completer_keeps_and_completes_witness:
  "(\<exists>td' rest.
      snd (ask_follow_up_questions [(''with_whom'', ''Alice''), (''location'', ''Room 1'')]
             ([''Team sync''] @ ['''', '' tomorrow 3pm ''] @
              [''d'', '''', '''', '''', '''', '''', ''extra''])) = Inr (td', rest)) \<and>
   is_set [(''with_whom'', ''Alice''), (''location'', ''Room 1''), (''task'', ''Team sync''),
           (''date_time'', ''tomorrow 3pm''), (''description'', ''d'')] ''task'' \<and>
   is_set [(''with_whom'', ''Alice''), (''location'', ''Room 1''), (''task'', ''Team sync''),
           (''date_time'', ''tomorrow 3pm''), (''description'', ''d'')] ''date_time'' \<and>
   dom (map_of [(''with_whom'', ''Alice''), (''location'', ''Room 1'')]) \<subseteq>
   dom (map_of [(''with_whom'', ''Alice''), (''location'', ''Room 1''), (''task'', ''Team sync''),
           (''date_time'', ''tomorrow 3pm''), (''description'', ''d'')])"
proof -
  let ?td = "[(''with_whom'', ''Alice''), (''location'', ''Room 1'')]"
  let ?a = "[''Team sync'']"
  let ?b = "['''', '' tomorrow 3pm '']"
  let ?c = "[''d'', '''', '''', '''', '''', '''', ''extra'']"
  note t = completer_keeps_and_completes [of ?td "?a @ ?b @ ?c"]
  have a: "\<exists>l \<in> set ?a. strip l \<noteq> []" by code_simp
  have b: "\<exists>l \<in> set ?b. strip l \<noteq> []" by code_simp
  have c: "7 \<le> length ?c" by simp
  from t a b c
  have "\<exists>td' rest. snd (ask_follow_up_questions ?td (?a @ ?b @ ?c)) = Inr (td', rest)"
    by blast
  moreover from t sample_completion
  have "is_set [(''with_whom'', ''Alice''), (''location'', ''Room 1''), (''task'', ''Team sync''),
           (''date_time'', ''tomorrow 3pm''), (''description'', ''d'')] ''task'' \<and>
   is_set [(''with_whom'', ''Alice''), (''location'', ''Room 1''), (''task'', ''Team sync''),
           (''date_time'', ''tomorrow 3pm''), (''description'', ''d'')] ''date_time'' \<and>
   dom (map_of ?td) \<subseteq>
   dom (map_of [(''with_whom'', ''Alice''), (''location'', ''Room 1''), (''task'', ''Team sync''),
           (''date_time'', ''tomorrow 3pm''), (''description'', ''d'')])"
    by blast
  ultimately show ?thesis by blast
qed

section \<open>The search is the pattern\<close>

text \<open>
  The matcher finds groups only where the pattern stands, and finds some wherever it stands.
\<close>

lemma literal_sound:
  "literal_ignorecase p s = Some r \<Longrightarrow> \<exists>l. s = l @ r \<and> map tolower l = p"
proof (induction p s rule: literal_ignorecase.induct)
  case (1 s)
  then show ?case by simp
next
  case (2 p ps)
  then show ?case by simp
next
  case (3 p ps c cs)
  from "3.prems" have c: "tolower c = p" and "literal_ignorecase ps cs = Some r"
    by (simp_all split: if_splits)
  with "3.IH" obtain l where "cs = l @ r" "map tolower l = ps" by blast
  with c have "c # cs = (c # l) @ r \<and> map tolower (c # l) = p # ps" by simp
  then show ?case by (rule exI [of _ "c # l"])
qed

lemma literal_complete: "map tolower l = p \<Longrightarrow> literal_ignorecase p (l @ r) = Some r"
  by (induction l arbitrary: p) auto

lemma time_more_sound:
  "time_more s = Some t \<Longrightarrow> newline \<notin> set t \<and> (\<exists>rest. s = t @ rest \<and> time_ends rest)"
proof (induction s arbitrary: t)
  case Nil
  then show ?case by (simp add: time_ends_def)
next
  case (Cons c cs)
  show ?case
  proof (cases "c = CHR ''.'' \<or> (c = newline \<and> cs = [])")
    case True
    then have "t = []" using Cons.prems by auto
    moreover have "time_ends (c # cs)" using True by (auto simp: time_ends_def)
    ultimately show ?thesis by simp
  next
    case False
    then have nl: "c \<noteq> newline" using Cons.prems by (auto split: if_splits)
    with False Cons.prems obtain t' where t': "time_more cs = Some t'" "t = c # t'"
      by (auto split: if_splits)
    from Cons.IH [OF t'(1)] obtain rest where
      "newline \<notin> set t'" "cs = t' @ rest" "time_ends rest" by blast
    with nl t' show ?thesis by auto
  qed
qed

lemma time_more_complete:
  "newline \<notin> set t \<Longrightarrow> time_ends rest \<Longrightarrow> time_more (t @ rest) \<noteq> None"
proof (induction t)
  case Nil
  then show ?case by (auto simp: time_ends_def)
next
  case (Cons c t)
  then show ?case by auto
qed

lemma time_group_sound:
  assumes "time_group s = Some t"
  shows "t \<noteq> [] \<and> newline \<notin> set t \<and> (\<exists>rest. s = t @ rest \<and> time_ends rest)"
proof -
  from assms obtain c cs t' where s: "s = c # cs" and c: "c \<noteq> newline"
    and t': "time_more cs = Some t'" and t: "t = c # t'"
    by (auto simp: time_group_def split: list.splits if_splits)
  from time_more_sound [OF t'] obtain rest where
    "newline \<notin> set t'" "cs = t' @ rest" "time_ends rest" by blast
  with s c t show ?thesis by auto
qed

lemma time_group_complete:
  assumes "t \<noteq> []" and "newline \<notin> set t" and "time_ends rest"
  shows "time_group (t @ rest) \<noteq> None"
proof -
  obtain c t' where t: "t = c # t'" using assms(1) by (cases t) auto
  with assms(2) have "c \<noteq> newline" "newline \<notin> set t'" by auto
  with time_more_complete [OF this(2) assms(3)] show ?thesis
    by (auto simp: time_group_def t)
qed

lemma at_time_sound:
  assumes "at_time s = Some t"
  shows "\<exists>sep rest. s = sep @ t @ rest \<and> map tolower sep = pattern_at \<and>
           t \<noteq> [] \<and> newline \<notin> set t \<and> time_ends rest"
proof -
  from assms obtain r where r: "literal_ignorecase pattern_at s = Some r" "time_group r = Some t"
    unfolding at_time_def by (cases "literal_ignorecase pattern_at s") simp_all
  from literal_sound [OF r(1)] obtain sep where sep: "s = sep @ r" "map tolower sep = pattern_at"
    by blast
  from time_group_sound [OF r(2)] obtain rest where
    t: "t \<noteq> []" "newline \<notin> set t" "r = t @ rest" "time_ends rest" by blast
  have "s = sep @ t @ rest" by (simp only: sep(1) t(3))
  with sep(2) t(1,2,4) show ?thesis by blast
qed

lemma at_time_complete:
  assumes "map tolower sep = pattern_at" and "t \<noteq> []" and "newline \<notin> set t" and "time_ends rest"
  shows "at_time (sep @ t @ rest) \<noteq> None"
proof -
  have "literal_ignorecase pattern_at (sep @ t @ rest) = Some (t @ rest)"
    using assms(1) by (rule literal_complete)
  moreover have "time_group (t @ rest) \<noteq> None"
    using assms(2-4) by (rule time_group_complete)
  ultimately show ?thesis by (simp add: at_time_def)
qed

lemma whom_more_sound:
  "whom_more s = Some (w, t) \<Longrightarrow> newline \<notin> set w \<and> (\<exists>r. s = w @ r \<and> at_time r = Some t)"
proof (induction s arbitrary: w)
  case Nil
  then show ?case by (auto split: option.splits)
next
  case (Cons c cs)
  show ?case
  proof (cases "at_time (c # cs)")
    case (Some t')
    then have "w = []" "t' = t" using Cons.prems by auto
    with Some show ?thesis by auto
  next
    case None
    with Cons.prems obtain w' where nl: "c \<noteq> newline"
      and w': "whom_more cs = Some (w', t)" "w = c # w'"
      by (auto split: if_splits)
    from Cons.IH [OF w'(1)] obtain r where
      "newline \<notin> set w'" "cs = w' @ r" "at_time r = Some t" by blast
    with nl w' show ?thesis by auto
  qed
qed

lemma whom_more_complete:
  "newline \<notin> set w \<Longrightarrow> at_time r \<noteq> None \<Longrightarrow> whom_more (w @ r) \<noteq> None"
proof (induction w)
  case Nil
  then show ?case by (cases r) (auto split: option.splits)
next
  case (Cons c w)
  then show ?case by (auto split: option.splits)
qed

lemma whom_group_sound:
  assumes "whom_group s = Some (w, t)"
  shows "w \<noteq> [] \<and> newline \<notin> set w \<and> (\<exists>r. s = w @ r \<and> at_time r = Some t)"
proof -
  from assms obtain c cs w' where s: "s = c # cs" and c: "c \<noteq> newline"
    and w': "whom_more cs = Some (w', t)" and w: "w = c # w'"
    by (auto simp: whom_group_def split: list.splits if_splits)
  from whom_more_sound [OF w'] obtain r where
    "newline \<notin> set w'" "cs = w' @ r" "at_time r = Some t" by blast
  with s c w show ?thesis by auto
qed

lemma whom_group_complete:
  assumes "w \<noteq> []" and "newline \<notin> set w" and "at_time r \<noteq> None"
  shows "whom_group (w @ r) \<noteq> None"
proof -
  obtain c w' where w: "w = c # w'" using assms(1) by (cases w) auto
  with assms(2) have "c \<noteq> newline" "newline \<notin> set w'" by auto
  with whom_more_complete [OF this(2) assms(3)] show ?thesis
    by (auto simp: whom_group_def w)
qed

lemma pattern_groupsI:
  assumes "txt = before @ verb @ lit @ g1 @ sep @ g2 @ rest"
    and "map tolower verb \<in> set pattern_verbs"
    and "map tolower lit = pattern_meeting" and "map tolower sep = pattern_at"
    and "g1 \<noteq> []" and "newline \<notin> set g1" and "g2 \<noteq> []" and "newline \<notin> set g2"
    and "time_ends rest"
  shows "pattern_groups txt g1 g2"
  unfolding pattern_groups_def using assms by blast

lemma pattern_groupsE:
  assumes "pattern_groups txt g1 g2"
  obtains before verb lit sep rest where
    "txt = before @ verb @ lit @ g1 @ sep @ g2 @ rest"
    and "map tolower verb \<in> set pattern_verbs"
    and "map tolower lit = pattern_meeting" and "map tolower sep = pattern_at"
    and "g1 \<noteq> []" and "newline \<notin> set g1" and "g2 \<noteq> []" and "newline \<notin> set g2"
    and "time_ends rest"
  using assms unfolding pattern_groups_def by blast

lemma match_verb_sound:
  assumes "match_verb v s = Some (g1, g2)"
  shows "\<exists>verb lit sep rest.
           s = verb @ lit @ g1 @ sep @ g2 @ rest \<and> map tolower verb = v \<and>
           map tolower lit = pattern_meeting \<and> map tolower sep = pattern_at \<and>
           g1 \<noteq> [] \<and> newline \<notin> set g1 \<and> g2 \<noteq> [] \<and> newline \<notin> set g2 \<and> time_ends rest"
proof -
  from assms obtain r where
    r: "literal_ignorecase v s = Some r"
    unfolding match_verb_def by (cases "literal_ignorecase v s") simp_all
  from assms r obtain r' where
    r': "literal_ignorecase pattern_meeting r = Some r'"
    unfolding match_verb_def
    by (cases "literal_ignorecase pattern_meeting r") simp_all
  from assms r r' have g: "whom_group r' = Some (g1, g2)"
    unfolding match_verb_def by simp
  from literal_sound [OF r] obtain verb where verb: "s = verb @ r" "map tolower verb = v"
    by blast
  from literal_sound [OF r'] obtain lit where
    lit: "r = lit @ r'" "map tolower lit = pattern_meeting" by blast
  from whom_group_sound [OF g] obtain r'' where
    g1: "g1 \<noteq> []" "newline \<notin> set g1" "r' = g1 @ r''" and at: "at_time r'' = Some g2"
    by blast
  from at_time_sound [OF at] obtain sep rest where
    sep: "r'' = sep @ g2 @ rest" "map tolower sep = pattern_at" and
    g2: "g2 \<noteq> []" "newline \<notin> set g2" "time_ends rest" by blast
  have "s = verb @ lit @ g1 @ sep @ g2 @ rest"
    by (simp only: verb(1) lit(1) g1(3) sep(1))
  with verb(2) lit(2) sep(2) g1(1,2) g2 show ?thesis by blast
qed

lemma match_verb_complete:
  assumes "map tolower verb = v" and "map tolower lit = pattern_meeting"
    and "map tolower sep = pattern_at" and "g1 \<noteq> []" and "newline \<notin> set g1"
    and "g2 \<noteq> []" and "newline \<notin> set g2" and "time_ends rest"
  shows "match_verb v (verb @ lit @ g1 @ sep @ g2 @ rest) \<noteq> None"
proof -
  have "at_time (sep @ g2 @ rest) \<noteq> None"
    using assms(3,6,7,8) by (rule at_time_complete)
  then have "whom_group (g1 @ sep @ g2 @ rest) \<noteq> None"
    using assms(4,5) whom_group_complete by blast
  moreover have "literal_ignorecase v (verb @ lit @ g1 @ sep @ g2 @ rest) =
      Some (lit @ g1 @ sep @ g2 @ rest)"
    using assms(1) by (rule literal_complete)
  moreover have "literal_ignorecase pattern_meeting (lit @ g1 @ sep @ g2 @ rest) =
      Some (g1 @ sep @ g2 @ rest)"
    using assms(2) by (rule literal_complete)
  ultimately show ?thesis by (simp add: match_verb_def)
qed

lemma match_alternatives_sound:
  "match_alternatives vs s = Some g \<Longrightarrow> \<exists>v \<in> set vs. match_verb v s = Some g"
  by (induction vs) (auto split: option.splits)

lemma match_alternatives_complete:
  "v \<in> set vs \<Longrightarrow> match_verb v s \<noteq> None \<Longrightarrow> match_alternatives vs s \<noteq> None"
  by (induction vs) (auto split: option.splits)

lemma match_here_sound:
  assumes "match_here s = Some (g1, g2)"
  shows "pattern_groups s g1 g2"
proof -
  from assms have "match_alternatives pattern_verbs s = Some (g1, g2)"
    unfolding match_here_def .
  from match_alternatives_sound [OF this]
  obtain v where v: "v \<in> set pattern_verbs"
    and m: "match_verb v s = Some (g1, g2)" by blast
  from match_verb_sound [OF m] obtain verb lit sep rest where
    d: "s = verb @ lit @ g1 @ sep @ g2 @ rest" "map tolower verb = v"
    "map tolower lit = pattern_meeting" "map tolower sep = pattern_at"
    "g1 \<noteq> []" "newline \<notin> set g1" "g2 \<noteq> []" "newline \<notin> set g2" "time_ends rest"
    by blast
  from d(1) have "s = [] @ verb @ lit @ g1 @ sep @ g2 @ rest" by (simp only: append_Nil)
  moreover from v d(2) have "map tolower verb \<in> set pattern_verbs"
    by simp
  ultimately show ?thesis using d(3-9) by (rule pattern_groupsI)
qed

lemma pattern_groups_Cons:
  assumes "pattern_groups s g1 g2"
  shows "pattern_groups (c # s) g1 g2"
proof -
  from assms obtain before verb lit sep rest where
    d: "s = before @ verb @ lit @ g1 @ sep @ g2 @ rest"
    "map tolower verb \<in> set pattern_verbs"
    "map tolower lit = pattern_meeting" "map tolower sep = pattern_at"
    "g1 \<noteq> []" "newline \<notin> set g1" "g2 \<noteq> []" "newline \<notin> set g2" "time_ends rest"
    by (rule pattern_groupsE)
  have "c # s = (c # before) @ verb @ lit @ g1 @ sep @ g2 @ rest"
    by (simp only: d(1) append_Cons)
  then show ?thesis using d(2-9) by (rule pattern_groupsI)
qed

lemma re_search_sound: "re_search s = Some (g1, g2) \<Longrightarrow> pattern_groups s g1 g2"
proof (induction s)
  case Nil
  then show ?case using match_here_sound by simp
next
  case (Cons c cs)
  show ?case
  proof (cases "match_here (c # cs)")
    case None
    with Cons.prems have "re_search cs = Some (g1, g2)" by simp
    then show ?thesis using Cons.IH pattern_groups_Cons by blast
  next
    case (Some g)
    with Cons.prems have "match_here (c # cs) = Some (g1, g2)" by simp
    then show ?thesis by (rule match_here_sound)
  qed
qed

lemma re_search_suffix: "match_here s \<noteq> None \<Longrightarrow> re_search (before @ s) \<noteq> None"
proof (induction before)
  case Nil
  then show ?case by (cases s) (auto split: option.splits)
next
  case (Cons c before)
  then show ?case by (auto split: option.splits)
qed

lemma re_search_complete:
  assumes "pattern_groups s g1 g2"
  shows "re_search s \<noteq> None"
proof -
  from assms obtain before verb lit sep rest where
    s: "s = before @ verb @ lit @ g1 @ sep @ g2 @ rest" and
    v: "map tolower verb \<in> set pattern_verbs" and
    rest: "map tolower lit = pattern_meeting" "map tolower sep = pattern_at"
    "g1 \<noteq> []" "newline \<notin> set g1" "g2 \<noteq> []" "newline \<notin> set g2" "time_ends rest"
    by (rule pattern_groupsE)
  have m: "match_verb (map tolower verb) (verb @ lit @ g1 @ sep @ g2 @ rest) \<noteq> None"
    using refl rest by (rule match_verb_complete)
  from v have "match_here (verb @ lit @ g1 @ sep @ g2 @ rest) \<noteq> None"
    unfolding match_here_def using m by (rule match_alternatives_complete)
  then show ?thesis unfolding s by (rule re_search_suffix)
qed

lemma re_search_occurs: "(re_search s \<noteq> None) = pattern_occurs s"
proof
  assume "re_search s \<noteq> None"
  then obtain g1 g2 where "re_search s = Some (g1, g2)" by (cases "re_search s") auto
  then have "pattern_groups s g1 g2" by (rule re_search_sound)
  then show "pattern_occurs s" unfolding pattern_occurs_def by blast
next
  assume "pattern_occurs s"
  then obtain g1 g2 where "pattern_groups s g1 g2" unfolding pattern_occurs_def by blast
  then show "re_search s \<noteq> None" by (rule re_search_complete)
qed


section \<open>The Task Extractor\<close>

lemma extract_no_match:
  "re_search tr = None \<Longrightarrow> snd (extract_task_details E tr) = []"
  by (simp add: extract_task_details_def)

lemma extract_match:
  "re_search tr = Some (g1, g2) \<Longrightarrow>
     snd (extract_task_details E tr) =
       (case dateparser_parse E (strip g2) of
          Inl e \<Rightarrow> []
        | Inr None \<Rightarrow> []
        | Inr (Some dt) \<Rightarrow>
            [(''task'', ''Meeting with '' @ strip g1), (''with_whom'', strip g1),
             (''date_time'', isoformat E dt)])"
  by (simp add: extract_task_details_def Let_def split: sum.splits option.splits)

text \<open>
  Claim C4. When the fixed pattern does not occur in the transcript, extraction returns the
  empty mapping. When it occurs, the search finds a counterpart and a time expression that
  stand in the transcript as the pattern says; if \<^verbatim>\<open>dateparser\<close> reads the stripped time
  expression, the mapping is \<^verbatim>\<open>task\<close> = \<^verbatim>\<open>Meeting with\<close> and the stripped counterpart,
  \<^verbatim>\<open>with_whom\<close> = the stripped counterpart, \<^verbatim>\<open>date_time\<close> = the ISO text of the instant; if
  it does not (it returns \<^verbatim>\<open>None\<close> or raises), the mapping is empty.
\<close>

theorem extraction_follows_pattern:
  "(\<not> pattern_occurs tr \<longrightarrow> snd (extract_task_details E tr) = []) \<and>
   (pattern_occurs tr \<longrightarrow>
      (\<exists>g1 g2.
         re_search tr = Some (g1, g2) \<and> pattern_groups tr g1 g2 \<and>
         (\<forall>dt. dateparser_parse E (strip g2) = Inr (Some dt) \<longrightarrow>
            snd (extract_task_details E tr) =
              [(''task'', ''Meeting with '' @ strip g1), (''with_whom'', strip g1),
               (''date_time'', isoformat E dt)]) \<and>
         ((\<forall>dt. dateparser_parse E (strip g2) \<noteq> Inr (Some dt)) \<longrightarrow>
            snd (extract_task_details E tr) = [])))"
proof (cases "re_search tr")
  case None
  then have "\<not> pattern_occurs tr" using re_search_occurs [of tr] by simp
  moreover have "snd (extract_task_details E tr) = []"
    using None by (rule extract_no_match)
  ultimately show ?thesis by simp
next
  case (Some g)
  obtain g1 g2 where g: "g = (g1, g2)" by (cases g) auto
  have found: "re_search tr = Some (g1, g2)" using Some g by simp
  then have groups: "pattern_groups tr g1 g2" by (rule re_search_sound)
  have parsed: "snd (extract_task_details E tr) =
            [(''task'', ''Meeting with '' @ strip g1), (''with_whom'', strip g1),
             (''date_time'', isoformat E dt)]"
    if "dateparser_parse E (strip g2) = Inr (Some dt)" for dt
    using that by (simp add: extract_match [OF found])
  have failed: "snd (extract_task_details E tr) = []"
    if "\<forall>dt. dateparser_parse E (strip g2) \<noteq> Inr (Some dt)"
    using that by (simp add: extract_match [OF found] split: sum.splits option.splits)
  have occ: "pattern_occurs tr" using groups unfolding pattern_occurs_def by blast
  have ex: "\<exists>g1 g2.
         re_search tr = Some (g1, g2) \<and> pattern_groups tr g1 g2 \<and>
         (\<forall>dt. dateparser_parse E (strip g2) = Inr (Some dt) \<longrightarrow>
            snd (extract_task_details E tr) =
              [(''task'', ''Meeting with '' @ strip g1), (''with_whom'', strip g1),
               (''date_time'', isoformat E dt)]) \<and>
         ((\<forall>dt. dateparser_parse E (strip g2) \<noteq> Inr (Some dt)) \<longrightarrow>
            snd (extract_task_details E tr) = [])"
  proof (rule exI [of _ g1], rule exI [of _ g2], intro conjI allI impI)
    show "re_search tr = Some (g1, g2)" by (rule found)
    show "pattern_groups tr g1 g2" by (rule groups)
    show "snd (extract_task_details E tr) =
              [(''task'', ''Meeting with '' @ strip g1), (''with_whom'', strip g1),
               (''date_time'', isoformat E dt)]"
      if "dateparser_parse E (strip g2) = Inr (Some dt)" for dt
      using that by (rule parsed)
    show "snd (extract_task_details E tr) = []"
      if "\<forall>dt. dateparser_parse E (strip g2) \<noteq> Inr (Some dt)"
      using that by (rule failed)
  qed
  show ?thesis
  proof (intro conjI impI)
    assume "\<not> pattern_occurs tr"
    with occ show "snd (extract_task_details E tr) = []" by (rule notE [rotated])
  next
    show "\<exists>g1 g2.
         re_search tr = Some (g1, g2) \<and> pattern_groups tr g1 g2 \<and>
         (\<forall>dt. dateparser_parse E (strip g2) = Inr (Some dt) \<longrightarrow>
            snd (extract_task_details E tr) =
              [(''task'', ''Meeting with '' @ strip g1), (''with_whom'', strip g1),
               (''date_time'', isoformat E dt)]) \<and>
         ((\<forall>dt. dateparser_parse E (strip g2) \<noteq> Inr (Some dt)) \<longrightarrow>
            snd (extract_task_details E tr) = [])"
      by (rule ex)
  qed
qed


lemma sample_search:
  "re_search sample_transcript = Some (''Alice'', ''3pm tomorrow'')"
  "re_search other_transcript = None"
  by code_simp+

lemma sample_time_parse:
  "dateparser_parse sample_env (strip ''3pm tomorrow'') = Inr (Some sample_datetime)"
  by (simp add: sample_env_def strip_def isspace_def)

text \<open>
  The two scenarios of the specification: a meeting with Alice, and a reminder to buy milk.
\<close>

theorem extraction_follows_pattern_witness:
  "pattern_occurs sample_transcript \<and>
   snd (extract_task_details sample_env sample_transcript) =
     [(''task'', ''Meeting with Alice''), (''with_whom'', ''Alice''),
      (''date_time'', ''2024-12-07T15:00:00-05:00'')] \<and>
   \<not> pattern_occurs other_transcript \<and>
   snd (extract_task_details sample_env other_transcript) = []"
proof -
  have occ: "pattern_occurs sample_transcript"
    unfolding re_search_occurs [symmetric] sample_search by simp
  have nocc: "\<not> pattern_occurs other_transcript"
    unfolding re_search_occurs [symmetric] sample_search by simp
  note t1 = extraction_follows_pattern [of sample_transcript sample_env]
  note t2 = extraction_follows_pattern [of other_transcript sample_env]
  obtain g1 g2 where f: "re_search sample_transcript = Some (g1, g2)"
    and p: "\<forall>dt. dateparser_parse sample_env (strip g2) = Inr (Some dt) \<longrightarrow>
            snd (extract_task_details sample_env sample_transcript) =
              [(''task'', ''Meeting with '' @ strip g1), (''with_whom'', strip g1),
               (''date_time'', isoformat sample_env dt)]"
    using conjunct2 [OF t1, THEN mp, OF occ] by (elim exE conjE) (rule that)
  from f have g: "g1 = ''Alice''" "g2 = ''3pm tomorrow''"
    unfolding sample_search by simp_all
  have "snd (extract_task_details sample_env sample_transcript) =
      [(''task'', ''Meeting with '' @ strip ''Alice''), (''with_whom'', strip ''Alice''),
       (''date_time'', isoformat sample_env sample_datetime)]"
    using p [unfolded g, rule_format, OF sample_time_parse] .
  then have e1: "snd (extract_task_details sample_env sample_transcript) =
     [(''task'', ''Meeting with Alice''), (''with_whom'', ''Alice''),
      (''date_time'', ''2024-12-07T15:00:00-05:00'')]"
    by (simp add: strip_def isspace_def sample_env_def sample_datetime_def)
  have e2: "snd (extract_task_details sample_env other_transcript) = []"
    using conjunct1 [OF t2, THEN mp, OF nocc] .
  from occ e1 nocc e2 show ?thesis by (intro conjI)
qed

section \<open>The Pipeline Driver\<close>

lemma transcribe_audio_quiet:
  "prompts (fst (transcribe_audio E path)) = [] \<and>
   inserted_events (fst (transcribe_audio E path)) = [] \<and>
   listings (fst (transcribe_audio E path)) = [] \<and>
   Authenticate \<notin> set (fst (transcribe_audio E path))"
  by (simp add: transcribe_audio_def split: sum.splits)

lemma extract_task_details_quiet:
  "prompts (fst (extract_task_details E tr)) = [] \<and>
   inserted_events (fst (extract_task_details E tr)) = [] \<and>
   listings (fst (extract_task_details E tr)) = [] \<and>
   Authenticate \<notin> set (fst (extract_task_details E tr))"
  by (simp add: extract_task_details_def Let_def split: sum.splits option.splits prod.splits)

lemma main_empty_extraction:
  assumes "transcribe_audio E path = (out1, Some t)"
    and "extract_task_details E (text' t) = (out3, [])"
  shows "main E path stdin =
           (out1 @ Print (''\<newline>Transcript:\<newline>'' @ text' t) # out3 @
              [Print ''Failed to extract task details.''], None)"
  using assms by (simp add: main_def Let_def)

text \<open>
  Claim C8. When the audio was transcribed and extraction returns the empty mapping, the run
  ends there without an exception: its last action is the message that extraction failed, no
  prompt was shown, no OAuth flow was started, no event was sent and the calendar was not
  listed, whatever standard input holds.
\<close>

theorem empty_extraction_halts:
  assumes "transcribe_audio E path = (out1, Some t)"
    and "snd (extract_task_details E (text' t)) = []"
  shows "snd (main E path stdin) = None \<and>
         last (fst (main E path stdin)) = Print ''Failed to extract task details.'' \<and>
         prompts (fst (main E path stdin)) = [] \<and>
         inserted_events (fst (main E path stdin)) = [] \<and>
         Authenticate \<notin> set (fst (main E path stdin)) \<and>
         listings (fst (main E path stdin)) = []"
proof -
  obtain out3 where e: "extract_task_details E (text' t) = (out3, [])"
    using assms(2) by (cases "extract_task_details E (text' t)") auto
  have q1: "prompts out1 = []" "inserted_events out1 = []" "listings out1 = []"
    "Authenticate \<notin> set out1"
    using transcribe_audio_quiet [of E path] assms(1) by simp_all
  have q3: "prompts out3 = []" "inserted_events out3 = []" "listings out3 = []"
    "Authenticate \<notin> set out3"
    using extract_task_details_quiet [of E "text' t"] e by simp_all
  show ?thesis
    unfolding main_empty_extraction [OF assms(1) e]
    by (simp add: q1 q3 prompts_append inserted_events_append listings_append)
qed


lemma milk_transcribed:
  "transcribe_audio milk_env ''audio.wav'' =
     ([Print ''Transcribing audio...'', Transcribe ''audio.wav''],
      Some \<lparr> status_is_error = False, transcript_error = [],
             text' = ''Remind me to buy milk'' \<rparr>)"
  by (simp add: transcribe_audio_def milk_env_def sample_env_def)

lemma milk_extracted:
  "snd (extract_task_details milk_env ''Remind me to buy milk'') = []"
  using extract_no_match [OF sample_search(2), of milk_env]
  by (simp add: other_transcript_def)

text \<open>
  The reminder to buy milk, with answers waiting on standard input that nobody asks for.
\<close>

theorem empty_extraction_halts_witness:
  "snd (extract_task_details milk_env ''Remind me to buy milk'') = [] \<and>
   snd (main milk_env ''audio.wav'' [''Team sync'', ''tomorrow'']) = None \<and>
   last (fst (main milk_env ''audio.wav'' [''Team sync'', ''tomorrow''])) =
     Print ''Failed to extract task details.'' \<and>
   prompts (fst (main milk_env ''audio.wav'' [''Team sync'', ''tomorrow''])) = [] \<and>
   inserted_events (fst (main milk_env ''audio.wav'' [''Team sync'', ''tomorrow''])) = []"
proof -
  have h: "snd (extract_task_details milk_env
      (text' \<lparr> status_is_error = False, transcript_error = [],
               text' = ''Remind me to buy milk'' \<rparr>)) = []"
    using milk_extracted by simp
  from empty_extraction_halts [OF milk_transcribed h, of "[''Team sync'', ''tomorrow'']"]
    milk_extracted
  show ?thesis by (intro conjI) (elim conjE, assumption)+
qed

lemma create_parse_failure:
  assumes "map_of td ''date_time'' = Some s" and "s \<noteq> []"
    and "\<forall>dt. dateparser_parse E s \<noteq> Inr (Some dt)"
  shows "\<exists>e. create_calendar_event E td =
              [Print (''Time parsing error: '' @ str_exn e), error_adding e]"
proof (cases "dateparser_parse E s")
  case (Inl e)
  then have "create_calendar_event E td =
      [Print (''Time parsing error: '' @ str_exn e), error_adding e]"
    using assms(1,2) by (simp add: create_calendar_event_def parse_time_result Let_def)
  then show ?thesis by (rule exI)
next
  case (Inr parsed)
  with assms(3) have "parsed = None" by (cases parsed) auto
  with Inr have "create_calendar_event E td =
      [Print (''Time parsing error: '' @
         str_exn (ValueError ''Unable to parse the provided date and time.'')),
       error_adding (ValueError ''Unable to parse the provided date and time.'')]"
    using assms(1,2) by (simp add: create_calendar_event_def parse_time_result Let_def)
  then show ?thesis by (rule exI)
qed

lemma create_overflow:
  assumes "map_of td ''date_time'' = Some s" and "s \<noteq> []"
    and "dateparser_parse E s = Inr (Some start_time)"
    and "datetime_add start_time (timedelta_hours 1) = Inl e"
  shows "create_calendar_event E td = [error_adding e]"
  using assms by (simp add: create_calendar_event_def parse_time_result Let_def)

lemma create_insert_failure:
  assumes "ev \<in> set (inserted_events (create_calendar_event E td))"
    and "events_insert E ev = Inl e"
  shows "create_calendar_event E td = [EventsInsert ev, error_adding e]"
proof -
  obtain s where s: "map_of td ''date_time'' = Some s"
    using assms(1) by (cases "map_of td ''date_time''") (simp_all add: inserted_events_create)
  have ne: "s \<noteq> []" using assms(1) s by (auto simp: inserted_events_create)
  obtain st where st: "dateparser_parse E s = Inr (Some st)"
    using assms(1) s ne
    by (cases "dateparser_parse E s")
      (auto simp: inserted_events_create split: option.splits)
  obtain en where en: "datetime_add st (timedelta_hours 1) = Inr en"
    using assms(1) s ne st
    by (cases "datetime_add st (timedelta_hours 1)") (auto simp: inserted_events_create)
  have ev: "ev = build_event E td (dict_get td ''task'' ''No Title Provided'') st en"
    using assms(1) s ne st en by (simp add: inserted_events_create)
  show ?thesis
    using s ne st en assms(2) unfolding ev
    by (simp add: create_calendar_event_def parse_time_result Let_def)
qed

lemma print_events_no_listing: "listings (fst (print_events items)) = []"
  by (induction items) (auto simp: Let_def split: option.splits prod.splits)

lemma listings_display:
  "listings (display_upcoming_events E n) = [(now_isoformat E, n)]"
proof (cases "events_list E (now_isoformat E) n")
  case (Inl e)
  then show ?thesis by (simp add: display_upcoming_events_def)
next
  case (Inr items)
  obtain out r where pe: "print_events items = (out, r)" by (cases "print_events items") auto
  have quiet: "listings out = []" using print_events_no_listing [of items] pe by simp
  show ?thesis
    using Inr pe quiet
    by (cases r) (simp_all add: display_upcoming_events_def listings_append)
qed

lemma main_reaches_building:
  assumes "transcribe_audio E path = (out1, Some t)"
    and "extract_task_details E (text' t) = (out3, td)" and "td \<noteq> []"
    and "ask_follow_up_questions td stdin = (out5, Inr (td', rest))"
    and "authenticate E = None"
  shows "main E path stdin =
     ((out1 @ Print (''\<newline>Transcript:\<newline>'' @ text' t) # out3 @
         [Print ''\<newline>Extracted Task Details:'', PrintJson td] @ out5 @
         [Print ''\<newline>Final Task Details:'', PrintJson td', Authenticate]) @
      create_calendar_event E td' @ display_upcoming_events E 10, None)"
  using assms by (simp add: main_def Let_def)


text \<open>
  Claim C2, amended. When transcription, extraction, completion and authentication went
  through, the run is \<^verbatim>\<open>create_calendar_event\<close> followed by \<^verbatim>\<open>display_upcoming_events\<close>, which
  lists the calendar once, and no exception ends it. A failure of the build (the date is not
  read, or the hour added leaves the range of \<^verbatim>\<open>datetime\<close>) or of the submission (the insert
  raises) is caught and reported as the last action of \<^verbatim>\<open>create_calendar_event\<close>, with
  nothing sent after a failed build and nothing sent again after a failed insert; the
  listing follows it.
\<close>

theorem failure_reported_then_listing:
  assumes "transcribe_audio E path = (out1, Some t)"
    and "extract_task_details E (text' t) = (out3, td)" and "td \<noteq> []"
    and "ask_follow_up_questions td stdin = (out5, Inr (td', rest))"
    and "authenticate E = None"
  shows "(\<exists>before. main E path stdin =
            (before @ create_calendar_event E td' @ display_upcoming_events E 10, None)) \<and>
         listings (display_upcoming_events E 10) = [(now_isoformat E, 10)] \<and>
         ((\<forall>dt. dateparser_parse E (dict_get td' ''date_time'' []) \<noteq> Inr (Some dt)) \<longrightarrow>
            (\<exists>e. create_calendar_event E td' =
                   [Print (''Time parsing error: '' @ str_exn e), error_adding e])) \<and>
         (\<forall>start_time e.
            dateparser_parse E (dict_get td' ''date_time'' []) = Inr (Some start_time) \<and>
            datetime_add start_time (timedelta_hours 1) = Inl e \<longrightarrow>
              create_calendar_event E td' = [error_adding e]) \<and>
         (\<forall>ev e.
            ev \<in> set (inserted_events (create_calendar_event E td')) \<and>
            events_insert E ev = Inl e \<longrightarrow>
              create_calendar_event E td' = [EventsInsert ev, error_adding e])"
proof -
  have "snd (ask_fields required_fields td stdin) = Inr (td', rest)"
    using assms(4) snd_ask_follow_up [of td stdin] by simp
  from ask_fields_kept [OF this] have "is_set td' ''date_time''"
    by (simp add: required_fields_def)
  then obtain s where s: "map_of td' ''date_time'' = Some s" "s \<noteq> []"
    by (auto simp: is_set_def split: option.splits)
  then have get: "dict_get td' ''date_time'' [] = s" by (simp add: dict_get_def)
  have reach: "\<exists>before. main E path stdin =
            (before @ create_calendar_event E td' @ display_upcoming_events E 10, None)"
    unfolding main_reaches_building [OF assms] by (rule exI) (rule refl)
  have parse: "\<exists>e. create_calendar_event E td' =
                   [Print (''Time parsing error: '' @ str_exn e), error_adding e]"
    if "\<forall>dt. dateparser_parse E (dict_get td' ''date_time'' []) \<noteq> Inr (Some dt)"
    using that create_parse_failure [OF s] unfolding get by simp
  have overflow: "create_calendar_event E td' = [error_adding e]"
    if "dateparser_parse E (dict_get td' ''date_time'' []) = Inr (Some start_time) \<and>
        datetime_add start_time (timedelta_hours 1) = Inl e" for start_time e
    using that create_overflow [OF s] unfolding get by simp
  have insert: "create_calendar_event E td' = [EventsInsert ev, error_adding e]"
    if "ev \<in> set (inserted_events (create_calendar_event E td')) \<and>
        events_insert E ev = Inl e" for ev e
    using that create_insert_failure by simp
  show ?thesis
  proof (intro conjI allI impI)
    show "\<exists>before. main E path stdin =
            (before @ create_calendar_event E td' @ display_upcoming_events E 10, None)"
      by (rule reach)
    show "listings (display_upcoming_events E 10) = [(now_isoformat E, 10)]"
      by (rule listings_display)
    show "\<exists>e. create_calendar_event E td' =
                   [Print (''Time parsing error: '' @ str_exn e), error_adding e]"
      if "\<forall>dt. dateparser_parse E (dict_get td' ''date_time'' []) \<noteq> Inr (Some dt)"
      using that by (rule parse)
    show "create_calendar_event E td' = [error_adding e]"
      if "dateparser_parse E (dict_get td' ''date_time'' []) = Inr (Some start_time) \<and>
        datetime_add start_time (timedelta_hours 1) = Inl e" for start_time e
      using that by (rule overflow)
    show "create_calendar_event E td' = [EventsInsert ev, error_adding e]"
      if "ev \<in> set (inserted_events (create_calendar_event E td')) \<and>
        events_insert E ev = Inl e" for ev e
      using that by (rule insert)
  qed
qed


lemma refusing_transcribed:
  "transcribe_audio refusing_env ''audio.wav'' =
     ([Print ''Transcribing audio...'', Transcribe ''audio.wav''],
      Some \<lparr> status_is_error = False, transcript_error = [], text' = sample_transcript \<rparr>)"
  by (simp add: transcribe_audio_def refusing_env_def sample_env_def sample_transcript_def)

lemma refusing_extracted:
  "extract_task_details refusing_env sample_transcript =
     ([Print (''Transcript Text: '' @ sample_transcript)], extracted_details)"
  by (simp add: extract_task_details_def sample_search Let_def)
    (simp add: refusing_env_def sample_env_def strip_def isspace_def sample_datetime_def
       extracted_details_def)

lemma refusing_completed:
  "snd (ask_follow_up_questions extracted_details blank_answers) = Inr (extracted_details, [])"
  by code_simp

lemma refusing_built:
  "inserted_events (create_calendar_event refusing_env extracted_details) \<noteq> []"
  by code_simp

lemma refusing_insert:
  "events_insert refusing_env ev = Inl (RaisedBy ''googleapiclient'' ''HttpError 403: Forbidden'')"
  by (simp add: refusing_env_def)

text \<open>
  Claim C2, as stated, fails: in the refusing world the event is built from the date the
  extractor stored and sent once, the calendar raises, the error is reported, the run ends
  without an exception, and the calendar is listed all the same.
\<close>

theorem failed_insert_still_lists_counterexample:
  "snd (main refusing_env ''audio.wav'' blank_answers) = None \<and>
   length (inserted_events (fst (main refusing_env ''audio.wav'' blank_answers))) = 1 \<and>
   error_adding (RaisedBy ''googleapiclient'' ''HttpError 403: Forbidden'')
     \<in> set (fst (main refusing_env ''audio.wav'' blank_answers)) \<and>
   listings (fst (main refusing_env ''audio.wav'' blank_answers)) =
     [(''2024-12-06T12:00:00+00:00'', 10)]"
  by code_simp

text \<open>
  The refusing world: the insert raises, the report is the last action of
  \<^verbatim>\<open>create_calendar_event\<close>, and the listing follows.
\<close>

theorem failure_reported_then_listing_witness:
  "(\<exists>before. main refusing_env ''audio.wav'' blank_answers =
      (before @ create_calendar_event refusing_env extracted_details
         @ display_upcoming_events refusing_env 10, None)) \<and>
   listings (display_upcoming_events refusing_env 10) = [(now_isoformat refusing_env, 10)] \<and>
   inserted_events (create_calendar_event refusing_env extracted_details) \<noteq> [] \<and>
   create_calendar_event refusing_env extracted_details =
     [EventsInsert (hd (inserted_events (create_calendar_event refusing_env extracted_details))),
      error_adding (RaisedBy ''googleapiclient'' ''HttpError 403: Forbidden'')]"
proof -
  let ?L = "inserted_events (create_calendar_event refusing_env extracted_details)"
  have h2: "extract_task_details refusing_env
      (text' \<lparr> status_is_error = False, transcript_error = [], text' = sample_transcript \<rparr>) =
      ([Print (''Transcript Text: '' @ sample_transcript)], extracted_details)"
    using refusing_extracted by simp
  have h3: "extracted_details \<noteq> []" by (simp add: extracted_details_def)
  have h4: "ask_follow_up_questions extracted_details blank_answers =
      (fst (ask_follow_up_questions extracted_details blank_answers),
       Inr (extracted_details, []))"
    using refusing_completed
    by (cases "ask_follow_up_questions extracted_details blank_answers") simp
  have h5: "authenticate refusing_env = None"
    by (simp add: refusing_env_def sample_env_def)
  note t = failure_reported_then_listing [OF refusing_transcribed h2 h3 h4 h5]
  from t have a: "\<exists>before. main refusing_env ''audio.wav'' blank_answers =
      (before @ create_calendar_event refusing_env extracted_details
         @ display_upcoming_events refusing_env 10, None)"
    by (rule conjunct1)
  from t have b: "listings (display_upcoming_events refusing_env 10) =
      [(now_isoformat refusing_env, 10)]"
    by (elim conjE)
  from t have all: "\<forall>ev e.
      ev \<in> set ?L \<and> events_insert refusing_env ev = Inl e \<longrightarrow>
        create_calendar_event refusing_env extracted_details = [EventsInsert ev, error_adding e]"
    by (elim conjE)
  have "hd ?L \<in> set ?L" using refusing_built by (rule hd_in_set)
  then have "hd ?L \<in> set ?L \<and>
      events_insert refusing_env (hd ?L) =
        Inl (RaisedBy ''googleapiclient'' ''HttpError 403: Forbidden'')"
    using refusing_insert by (rule conjI)
  with all [rule_format] have c: "create_calendar_event refusing_env extracted_details =
     [EventsInsert (hd ?L),
      error_adding (RaisedBy ''googleapiclient'' ''HttpError 403: Forbidden'')]" .
  from a b refusing_built c show ?thesis by (intro conjI)
qed

end
